theory Spec2Isabelle
  imports Main
begin

section \<open>A listening leaderboard over PostgreSQL\<close>

text \<open>
  The repository is an Express server: \<^verbatim>\<open>src/server/index.ts\<close>, and after the schema in
  \<^verbatim>\<open>src/server/db.ts\<close> a later revision of the same file, with authentication and with
  \<^verbatim>\<open>syncAllUsersFromFiles\<close>. Its logic is in the request handlers and in the SQL
  statements they send. This theory models the schema, the statements as functions on the
  tables, and on top of them the upload of history files, the two startup imports, the user
  profile, the artist leaderboard, comments and likes. A statement that the database rejects
  throws in the handler; the model returns what was thrown as a value, and every
  \<^verbatim>\<open>try\<close>/\<^verbatim>\<open>catch\<close> of the source is a case distinction on it.
\<close>

section \<open>The database schema of \<^verbatim>\<open>src/server/db.ts\<close>\<close>

text \<open>
  The server keeps all its state in four PostgreSQL tables created by \<^verbatim>\<open>initDb\<close>.
  A table is modelled as the list of its rows in insertion order, and a query without
  \<^verbatim>\<open>ORDER BY\<close> returns its rows in that order. The columns that no modelled
  statement reads or writes (\<^verbatim>\<open>created_at\<close>, \<^verbatim>\<open>password_hash\<close>, \<^verbatim>\<open>spotify_id\<close>,
  \<^verbatim>\<open>spotify_connected\<close>, and the surrogate keys of \<^verbatim>\<open>streaming_history\<close> and
  \<^verbatim>\<open>comment_likes\<close>) are left out. A \<^verbatim>\<open>SERIAL\<close> key is drawn from a sequence that is
  kept apart from the rows, as in PostgreSQL: an insert that names the key itself does not
  move the sequence. The column \<^verbatim>\<open>user_id\<close> of a history row is never null in a row the
  server writes and is a number here; the other columns of that table may be null.
\<close>

type_synonym timestamp = nat

record user_row =
  u_id :: int
  u_username :: string
  u_avatar :: string

record history_row =
  sh_user_id :: int
  sh_ts :: timestamp
  sh_track_name :: "string option"
  sh_artist_name :: "string option"
  sh_album_name :: "string option"
  sh_ms_played :: "int option"
  sh_spotify_track_uri :: "string option"
  sh_platform :: "string option"

record comment_row =
  c_id :: int
  c_user_id :: int
  c_artist_name :: string
  c_content :: string
  c_likes :: int

record like_row =
  l_comment_id :: int
  l_user_id :: int

record database =
  users :: "user_row list"
  users_id_seq :: int
  streaming_history :: "history_row list"
  comments :: "comment_row list"
  comments_id_seq :: int
  comment_likes :: "like_row list"

text \<open>The state after \<^verbatim>\<open>initDb\<close> on a fresh database: every table empty, no sequence used.\<close>

definition initDb :: database where
  "initDb = \<lparr>users = [], users_id_seq = 0, streaming_history = [], comments = [],
     comments_id_seq = 0, comment_likes = []\<rparr>"

text \<open>
  What the code inside a \<^verbatim>\<open>try\<close> can have thrown at it: a file that cannot be read
  or parsed, and a statement that the database rejects. Failures of the connection to the
  database are not modelled.
\<close>

datatype exn = FileError | QueryError

text \<open>
  A text value: PostgreSQL takes no text with a NUL character in it, as a parameter of any
  statement. \<^verbatim>\<open>VARCHAR(n)\<close>: a longer text is rejected unless the excess is blanks only,
  and then the first \<open>n\<close> characters are stored. \<^verbatim>\<open>INTEGER\<close> is a signed 32-bit
  number. The server sends the parameters with the statement, and a parameter that is no
  value of its type is rejected before the statement runs.
\<close>

definition text_ok :: "string \<Rightarrow> bool" where
  "text_ok s = list_all (\<lambda>c. c \<noteq> CHR 0x00) s"

definition varchar_ok :: "nat \<Rightarrow> string \<Rightarrow> bool" where
  "varchar_ok n s = (text_ok s \<and> list_all (\<lambda>c. c = CHR '' '') (drop n s))"

definition varchar_null_ok :: "nat \<Rightarrow> string option \<Rightarrow> bool" where
  "varchar_null_ok n v = (case v of None \<Rightarrow> True | Some s \<Rightarrow> varchar_ok n s)"

definition integer_null_ok :: "int option \<Rightarrow> bool" where
  "integer_null_ok v = (case v of None \<Rightarrow> True | Some i \<Rightarrow> - 2147483648 \<le> i \<and> i \<le> 2147483647)"

section \<open>History files and the record validator\<close>

text \<open>
  One entry of an exported history file, with the fields the server reads. A field that is
  \<^verbatim>\<open>null\<close> or absent is \<open>None\<close>; text fields are strings, \<^verbatim>\<open>ms_played\<close> is an
  integer and \<^verbatim>\<open>ts\<close> a timestamp, given by the instant it denotes. A file is \<open>None\<close> when
  reading it, \<^verbatim>\<open>JSON.parse\<close> or \<^verbatim>\<open>data.filter\<close> throws, and the array of its entries
  otherwise.
\<close>

record raw_entry =
  ts :: "timestamp option"
  master_metadata_track_name :: "string option"
  master_metadata_album_artist_name :: "string option"
  master_metadata_album_album_name :: "string option"
  ms_played :: "int option"
  spotify_track_uri :: "string option"
  platform :: "string option"

type_synonym history_file = "raw_entry list option"

text \<open>
  The filter callback \<^verbatim>\<open>r => r.master_metadata_track_name && r.ms_played > 0\<close>: a string is
  truthy when it is not empty, and \<^verbatim>\<open>null > 0\<close> and \<^verbatim>\<open>undefined > 0\<close> are false.
\<close>

definition valid :: "raw_entry \<Rightarrow> bool" where
  "valid r =
     ((case master_metadata_track_name r of None \<Rightarrow> False | Some s \<Rightarrow> s \<noteq> []) \<and>
      (case ms_played r of None \<Rightarrow> False | Some n \<Rightarrow> 0 < n))"

definition validRecords :: "raw_entry list \<Rightarrow> raw_entry list" where
  "validRecords data = filter valid data"

section \<open>The batch inserter\<close>

text \<open>
  The statement \<^verbatim>\<open>INSERT INTO streaming_history (user_id, ts, track_name, ...) VALUES ...\<close>
  with one row of eight parameters for each record of the batch. It is one statement:
  either every row is stored or the statement throws and none is. A row is rejected when
  \<^verbatim>\<open>ts\<close> is null (\<^verbatim>\<open>NOT NULL\<close>), when a text is no text value or does not fit its
  column or when \<^verbatim>\<open>ms_played\<close> is no 32-bit integer; the statement is rejected when \<^verbatim>\<open>user_id\<close> is
  not the key of a user (\<^verbatim>\<open>REFERENCES users(id)\<close>), and with an empty \<^verbatim>\<open>VALUES\<close>
  list, which is a syntax error.
\<close>

definition row_ok :: "raw_entry \<Rightarrow> bool" where
  "row_ok r =
     (ts r \<noteq> None \<and>
      varchar_null_ok 500 (master_metadata_track_name r) \<and>
      varchar_null_ok 500 (master_metadata_album_artist_name r) \<and>
      varchar_null_ok 500 (master_metadata_album_album_name r) \<and>
      integer_null_ok (ms_played r) \<and>
      varchar_null_ok 255 (spotify_track_uri r) \<and>
      varchar_null_ok 50 (platform r))"

definition stored_row :: "int \<Rightarrow> raw_entry \<Rightarrow> history_row" where
  "stored_row userId r =
     \<lparr>sh_user_id = userId,
      sh_ts = (case ts r of None \<Rightarrow> 0 | Some t \<Rightarrow> t),
      sh_track_name = map_option (take 500) (master_metadata_track_name r),
      sh_artist_name = map_option (take 500) (master_metadata_album_artist_name r),
      sh_album_name = map_option (take 500) (master_metadata_album_album_name r),
      sh_ms_played = ms_played r,
      sh_spotify_track_uri = map_option (take 255) (spotify_track_uri r),
      sh_platform = map_option (take 50) (platform r)\<rparr>"

definition user_exists :: "user_row list \<Rightarrow> int \<Rightarrow> bool" where
  "user_exists us userId = list_ex (\<lambda>u. u_id u = userId) us"

definition batch_ok :: "user_row list \<Rightarrow> int \<Rightarrow> raw_entry list \<Rightarrow> bool" where
  "batch_ok us userId batch = (batch \<noteq> [] \<and> list_all row_ok batch \<and> user_exists us userId)"

definition insert_history :: "database \<Rightarrow> int \<Rightarrow> raw_entry list \<Rightarrow> exn + database" where
  "insert_history db userId batch =
     (if batch_ok (users db) userId batch
      then Inr (db\<lparr>streaming_history := streaming_history db @ map (stored_row userId) batch\<rparr>)
      else Inl QueryError)"

definition BATCH_SIZE :: nat where
  "BATCH_SIZE = 500"

text \<open>\<^verbatim>\<open>xs.slice(b, e)\<close> for indices that are not negative.\<close>

definition slice :: "nat \<Rightarrow> nat \<Rightarrow> 'a list \<Rightarrow> 'a list" where
  "slice b e xs = take (e - b) (drop b xs)"

text \<open>
  The loop \<^verbatim>\<open>for (let i = 0; i < validRecords.length; i += BATCH_SIZE)\<close>, the same in
  \<^verbatim>\<open>loadDemoData\<close>, \<^verbatim>\<open>syncAllUsersFromFiles\<close> and the upload handler. It runs from
  index \<open>i\<close> with the counter \<^verbatim>\<open>totalRecords\<close>, and stops at the first statement that
  throws. Its result holds the database and the counter at the exit, what was thrown, and
  the \<^verbatim>\<open>VALUES\<close> lists of the statements it sent, in the order it sent them.
\<close>

record loop_result =
  lr_db :: database
  lr_total :: nat
  lr_issued :: "raw_entry list list"
  lr_thrown :: "exn option"

function insert_batches ::
  "database \<Rightarrow> int \<Rightarrow> raw_entry list \<Rightarrow> nat \<Rightarrow> nat \<Rightarrow> raw_entry list list \<Rightarrow> loop_result" where
  "insert_batches db userId vs i totalRecords issued =
     (if i < length vs then
        (case insert_history db userId (slice i (i + BATCH_SIZE) vs) of
           Inl e \<Rightarrow>
             \<lparr>lr_db = db, lr_total = totalRecords,
              lr_issued = issued @ [slice i (i + BATCH_SIZE) vs], lr_thrown = Some e\<rparr>
         | Inr db' \<Rightarrow>
             insert_batches db' userId vs (i + BATCH_SIZE)
               (totalRecords + length (slice i (i + BATCH_SIZE) vs))
               (issued @ [slice i (i + BATCH_SIZE) vs]))
      else \<lparr>lr_db = db, lr_total = totalRecords, lr_issued = issued, lr_thrown = None\<rparr>)"
  by pat_completeness auto
termination
  by (relation "measure (\<lambda>(db, userId, vs, i, totalRecords, issued). length vs - i)")
    (auto simp: BATCH_SIZE_def)

text \<open>
  The body of \<^verbatim>\<open>for (const file of files)\<close>: read and parse the file, filter it, insert
  the batches. Whatever is thrown inside is caught by the \<^verbatim>\<open>catch\<close> of this file and
  logged; the next file starts from the database and the counter as they are then. (The
  upload handler removes the uploaded file after its last batch; that changes neither the
  database nor the counter and is left out.)
\<close>

definition import_file :: "database \<Rightarrow> int \<Rightarrow> history_file \<Rightarrow> nat \<Rightarrow> loop_result" where
  "import_file db userId file totalRecords =
     (case file of
        None \<Rightarrow> \<lparr>lr_db = db, lr_total = totalRecords, lr_issued = [], lr_thrown = Some FileError\<rparr>
      | Some data \<Rightarrow> insert_batches db userId (validRecords data) 0 totalRecords [])"

fun import_files :: "database \<Rightarrow> int \<Rightarrow> history_file list \<Rightarrow> nat \<Rightarrow> database \<times> nat" where
  "import_files db userId [] totalRecords = (db, totalRecords)"
| "import_files db userId (file # files) totalRecords =
     import_files (lr_db (import_file db userId file totalRecords)) userId files
       (lr_total (import_file db userId file totalRecords))"


section \<open>Resolving the target user\<close>

text \<open>
  \<^verbatim>\<open>INSERT INTO users (username, avatar) VALUES ($1, $2) RETURNING id\<close>. A text that
  does not fit its column is rejected before the statement runs, and the sequence stays
  where it was. Otherwise the key is the next value of the sequence, which stays used also
  when the statement then throws: when the key is already a user's (\<^verbatim>\<open>PRIMARY KEY\<close>)
  or the name is (\<^verbatim>\<open>UNIQUE\<close>).
\<close>

definition insert_user :: "database \<Rightarrow> string \<Rightarrow> string \<Rightarrow> (exn + int) \<times> database" where
  "insert_user db username avatar =
     (if varchar_ok 255 username \<and> varchar_ok 50 avatar
      then
        (if user_exists (users db) (users_id_seq db + 1) then
           (Inl QueryError, db\<lparr>users_id_seq := users_id_seq db + 1\<rparr>)
         else if list_ex (\<lambda>u. u_username u = take 255 username) (users db) then
           (Inl QueryError, db\<lparr>users_id_seq := users_id_seq db + 1\<rparr>)
         else
           (Inr (users_id_seq db + 1),
            db\<lparr>users := users db @
                 [\<lparr>u_id = users_id_seq db + 1, u_username = take 255 username,
                   u_avatar = take 50 avatar\<rparr>],
               users_id_seq := users_id_seq db + 1\<rparr>))
      else (Inl QueryError, db))"

definition DEMO_USER_ID :: int where
  "DEMO_USER_ID = 1"

definition DEMO_USERNAME :: string where
  "DEMO_USERNAME = ''David Stouck''"

text \<open>
  \<^verbatim>\<open>ensureDemoUser\<close> names the key itself, so the sequence does not move;
  \<^verbatim>\<open>ON CONFLICT DO NOTHING\<close> skips the row when its name is taken.
\<close>

definition ensureDemoUser :: "database \<Rightarrow> database" where
  "ensureDemoUser db =
     (if user_exists (users db) DEMO_USER_ID then db
      else if list_ex (\<lambda>u. u_username u = DEMO_USERNAME) (users db) then db
      else db\<lparr>users := users db @
             [\<lparr>u_id = DEMO_USER_ID, u_username = DEMO_USERNAME, u_avatar = ''goat''\<rparr>]\<rparr>)"

text \<open>
  The upload handler looks the user up with \<^verbatim>\<open>WHERE username = $1\<close> (lines 276-287 of
  \<^verbatim>\<open>index.ts\<close>) and takes the first row, or inserts the user with the avatar
  \<^verbatim>\<open>'goat'\<close>. The lookup throws for a name that is no text value.
\<close>

definition upload_resolve_user :: "database \<Rightarrow> string \<Rightarrow> (exn + int) \<times> database" where
  "upload_resolve_user db username =
     (if text_ok username then
        (case filter (\<lambda>u. u_username u = username) (users db) of
           [] \<Rightarrow> insert_user db username ''goat''
         | u # rest \<Rightarrow> (Inr (u_id u), db))
      else (Inl QueryError, db))"

section \<open>Case-insensitive patterns\<close>

text \<open>
  \<^verbatim>\<open>text ILIKE pattern\<close>: in the pattern \<^verbatim>\<open>%\<close> stands for any text, \<^verbatim>\<open>_\<close> for any one
  character and a backslash takes the next character literally; letters match in either
  case. Case is folded for the letters of ASCII. PostgreSQL folds the text and the pattern
  and then runs its matcher \<^verbatim>\<open>MatchText\<close>, which raises an error when it arrives at a
  backslash that ends the pattern; the statement then throws. The matcher is modelled with
  its four outcomes: the text matches, it does not match at this position, it cannot match
  at any later position either, and the error.
\<close>

datatype like_result = LIKE_TRUE | LIKE_FALSE | LIKE_ABORT | LIKE_ERROR

fun lower_char :: "char \<Rightarrow> char" where
  "lower_char (Char b0 b1 b2 b3 b4 b5 b6 b7) =
     (if (65::nat) \<le> of_char (Char b0 b1 b2 b3 b4 b5 b6 b7) \<and>
         of_char (Char b0 b1 b2 b3 b4 b5 b6 b7) \<le> (90::nat)
      then Char b0 b1 b2 b3 b4 True b6 b7
      else Char b0 b1 b2 b3 b4 b5 b6 b7)"

text \<open>
  After a \<^verbatim>\<open>%\<close> the matcher passes over the wildcards that follow it: a further
  \<^verbatim>\<open>%\<close> adds nothing, a \<^verbatim>\<open>_\<close> takes one character of the text, and the text
  cannot match when it has none left.
\<close>

fun skip_wildcards :: "string \<Rightarrow> string \<Rightarrow> (string \<times> string) option" where
  "skip_wildcards t [] = Some (t, [])"
| "skip_wildcards t (c # ps) =
     (if c = CHR ''%'' then skip_wildcards t ps
      else if c = CHR ''_'' then (case t of [] \<Rightarrow> None | x # xs \<Rightarrow> skip_wildcards xs ps)
      else Some (t, c # ps))"

text \<open>
  \<open>MatchText t p\<close> matches the text \<open>t\<close> against the pattern \<open>p\<close>. After a
  \<^verbatim>\<open>%\<close> and its wildcards, \<open>scan_text\<close> tries the rest of the pattern at every
  position of the text that starts with the first literal character of that rest.
\<close>

function MatchText :: "string \<Rightarrow> string \<Rightarrow> like_result"
  and scan_text :: "char \<Rightarrow> string \<Rightarrow> string \<Rightarrow> like_result" where
  "MatchText [] p = (if list_all (\<lambda>c. c = CHR ''%'') p then LIKE_TRUE else LIKE_ABORT)"
| "MatchText (x # xs) [] = LIKE_FALSE"
| "MatchText (x # xs) (c # ps) =
     (if c = CHR 0x5C then
        (case ps of
           [] \<Rightarrow> LIKE_ERROR
         | q # qs \<Rightarrow> if q = x then MatchText xs qs else LIKE_FALSE)
      else if c = CHR ''%'' then
        (case skip_wildcards (x # xs) ps of
           None \<Rightarrow> LIKE_ABORT
         | Some (t', p') \<Rightarrow>
             (case p' of
                [] \<Rightarrow> LIKE_TRUE
              | q # qs \<Rightarrow>
                  if q = CHR 0x5C
                  then (case qs of [] \<Rightarrow> LIKE_ERROR | r # rs \<Rightarrow> scan_text r t' p')
                  else scan_text q t' p'))
      else if c = CHR ''_'' \<or> c = x then MatchText xs ps
      else LIKE_FALSE)"
| "scan_text firstpat [] p = LIKE_ABORT"
| "scan_text firstpat (x # xs) p =
     (if x = firstpat \<and> MatchText (x # xs) p \<noteq> LIKE_FALSE then MatchText (x # xs) p
      else scan_text firstpat xs p)"
  by pat_completeness auto
termination
proof -
  have shorter: "length t' \<le> length t \<and> length p' \<le> length p"
    if "skip_wildcards t p = Some (t', p')" for t p t' p'
    using that
    by (induction t p rule: skip_wildcards.induct) (auto split: if_splits list.splits)
  show ?thesis
    by (relation "measure (\<lambda>a. case a of Inl (t, p) \<Rightarrow> 2 * (length t + length p)
                                  | Inr (f, t, p) \<Rightarrow> 2 * (length t + length p) + 1)")
      (auto dest: shorter)
qed

definition ilike :: "string \<Rightarrow> string \<Rightarrow> like_result" where
  "ilike pattern s = MatchText (map lower_char s) (map lower_char pattern)"

text \<open>
  \<^verbatim>\<open>SELECT ... FROM users WHERE username ILIKE $1\<close>: the rows whose name matches, in
  the order of the table. The statement throws when the pattern is no text value and when
  the matcher raises its error on the name of a row.
\<close>

definition select_users_ilike :: "database \<Rightarrow> string \<Rightarrow> exn + user_row list" where
  "select_users_ilike db pattern =
     (if text_ok pattern \<and> \<not> list_ex (\<lambda>u. ilike pattern (u_username u) = LIKE_ERROR) (users db)
      then Inr (filter (\<lambda>u. ilike pattern (u_username u) = LIKE_TRUE) (users db))
      else Inl QueryError)"

section \<open>Uploading history files\<close>

text \<open>
  \<^verbatim>\<open>POST /api/upload\<close>. The name is \<^verbatim>\<open>req.body.username\<close>, or \<^verbatim>\<open>User_\<close> and the first
  eight characters of a fresh UUID when that is absent or empty. \<^verbatim>\<open>req.files\<close> is the
  list of the uploaded files when the request is a multipart one, and \<^verbatim>\<open>undefined\<close>
  otherwise, which is \<open>None\<close> here. The answer is
  \<^verbatim>\<open>{success: true, userId, recordsImported}\<close>, or status 500 from the outer
  \<^verbatim>\<open>catch\<close>: when the lookup or the insert of the user throws, and when
  \<^verbatim>\<open>for (const file of files)\<close> throws because there is no list of files, which is
  after the user was found or created. (\<^verbatim>\<open>req.body\<close> is taken to be an object, as
  \<^verbatim>\<open>express.json\<close> and the upload middleware leave it. A request that the upload
  middleware refuses does not reach the handler.)
\<close>

datatype http_error = NotFound | ServerError

record upload_response =
  ur_userId :: int
  ur_recordsImported :: nat

definition upload_username :: "string option \<Rightarrow> string \<Rightarrow> string" where
  "upload_username body_username uuid =
     (case body_username of
        None \<Rightarrow> ''User_'' @ take 8 uuid
      | Some s \<Rightarrow> if s = [] then ''User_'' @ take 8 uuid else s)"

definition upload ::
  "database \<Rightarrow> string option \<Rightarrow> string \<Rightarrow> history_file list option \<Rightarrow>
     (http_error + upload_response) \<times> database" where
  "upload db body_username uuid req_files =
     (case upload_resolve_user db (upload_username body_username uuid) of
        (Inl e, db1) \<Rightarrow> (Inl ServerError, db1)
      | (Inr userId, db1) \<Rightarrow>
          (case req_files of
             None \<Rightarrow> (Inl ServerError, db1)
           | Some files \<Rightarrow>
               (Inr \<lparr>ur_userId = userId,
                     ur_recordsImported = snd (import_files db1 userId files 0)\<rparr>,
                fst (import_files db1 userId files 0))))"

section \<open>The startup imports\<close>

definition count_history :: "database \<Rightarrow> int \<Rightarrow> nat" where
  "count_history db userId = length (filter (\<lambda>r. sh_user_id r = userId) (streaming_history db))"

text \<open>\<^verbatim>\<open>loadDemoData\<close>, given the history files of the working directory.\<close>

definition loadDemoData :: "database \<Rightarrow> history_file list \<Rightarrow> database" where
  "loadDemoData db files =
     (if 0 < count_history db DEMO_USER_ID then db
      else fst (import_files db DEMO_USER_ID files 0))"

text \<open>
  \<^verbatim>\<open>syncAllUsersFromFiles\<close>, given the entries of \<^verbatim>\<open>userFilesMap\<close> in the order of
  \<^verbatim>\<open>Object.entries\<close>: a user name with the files that carry it. One turn of the loop looks
  the user up with \<^verbatim>\<open>username ILIKE $1\<close> or inserts it, skips a user who has a history
  row, and imports the files otherwise; the \<^verbatim>\<open>catch\<close> around the turn swallows what the
  lookup or the insert throws.
\<close>

definition sync_resolve_user :: "database \<Rightarrow> string \<Rightarrow> (exn + int) \<times> database" where
  "sync_resolve_user db username =
     (case select_users_ilike db username of
        Inl e \<Rightarrow> (Inl e, db)
      | Inr [] \<Rightarrow> insert_user db username ''goat''
      | Inr (u # rest) \<Rightarrow> (Inr (u_id u), db))"

definition sync_user :: "database \<Rightarrow> string \<times> history_file list \<Rightarrow> database" where
  "sync_user db entry =
     (case sync_resolve_user db (fst entry) of
        (Inl e, db1) \<Rightarrow> db1
      | (Inr userId, db1) \<Rightarrow>
          if 0 < count_history db1 userId then db1
          else fst (import_files db1 userId (snd entry) 0))"

definition syncAllUsersFromFiles ::
  "database \<Rightarrow> (string \<times> history_file list) list \<Rightarrow> database" where
  "syncAllUsersFromFiles db userFilesMap = foldl sync_user db userFilesMap"


section \<open>The user profile\<close>

text \<open>
  \<^verbatim>\<open>GET /api/user/:userId?\<close>. Without the parameter the user is the demo user; a parameter
  for which \<^verbatim>\<open>isNaN(parseInt(userId))\<close> holds is a name and is looked up with
  \<^verbatim>\<open>username ILIKE $1\<close>; any other parameter is sent as the text of the key, and the
  statement throws when PostgreSQL does not read it as a 32-bit integer. White space is the
  six white-space characters of ASCII.
\<close>

definition is_space :: "char \<Rightarrow> bool" where
  "is_space c = (c \<in> set [CHR '' '', CHR 0x09, CHR 0x0A, CHR 0x0B, CHR 0x0C, CHR 0x0D])"

definition is_digit :: "char \<Rightarrow> bool" where
  "is_digit c = ((48::nat) \<le> of_char c \<and> of_char c \<le> (57::nat))"

definition is_hex_digit :: "char \<Rightarrow> bool" where
  "is_hex_digit c =
     (is_digit c \<or> ((65::nat) \<le> of_char c \<and> of_char c \<le> (70::nat)) \<or>
      ((97::nat) \<le> of_char c \<and> of_char c \<le> (102::nat)))"

definition strip_sign :: "string \<Rightarrow> string" where
  "strip_sign s =
     (case s of [] \<Rightarrow> [] | c # cs \<Rightarrow> if c = CHR ''+'' \<or> c = CHR ''-'' then cs else c # cs)"

definition parseInt_isNaN :: "string \<Rightarrow> bool" where
  "parseInt_isNaN s =
     (case strip_sign (dropWhile is_space s) of
        [] \<Rightarrow> True
      | [c] \<Rightarrow> \<not> is_digit c
      | c # d # rest \<Rightarrow>
          if c = CHR ''0'' \<and> (d = CHR ''x'' \<or> d = CHR ''X'')
          then (case rest of [] \<Rightarrow> True | h # hs \<Rightarrow> \<not> is_hex_digit h)
          else \<not> is_digit c)"

text \<open>
  The text of an integer as PostgreSQL reads it since version 16: white space, a sign, then
  decimal digits, or hexadecimal, octal or binary digits after \<^verbatim>\<open>0x\<close>, \<^verbatim>\<open>0o\<close>
  or \<^verbatim>\<open>0b\<close>, then white space. An underscore may stand before a digit, though not
  first in a decimal number. \<open>read_digits\<close> reads the digits to the base \<open>b\<close> and gives
  their value, their number and the rest of the text, or nothing for an underscore out of
  place.
\<close>

definition is_digit_of :: "nat \<Rightarrow> char \<Rightarrow> bool" where
  "is_digit_of b c =
     (if b = 16 then is_hex_digit c else (48::nat) \<le> of_char c \<and> of_char c < (48::nat) + b)"

definition digit_value :: "char \<Rightarrow> nat" where
  "digit_value c =
     (if is_digit c then of_char c - 48
      else if (97::nat) \<le> of_char c then of_char c - 87
      else of_char c - 55)"

fun read_digits :: "nat \<Rightarrow> bool \<Rightarrow> string \<Rightarrow> int \<Rightarrow> nat \<Rightarrow> (int \<times> nat \<times> string) option" where
  "read_digits b lead [] acc k = Some (acc, k, [])"
| "read_digits b lead (c # cs) acc k =
     (if is_digit_of b c then read_digits b lead cs (acc * int b + int (digit_value c)) (k + 1)
      else if c = CHR ''_'' then
        (if k = 0 \<and> \<not> lead then None
         else (case cs of
                 [] \<Rightarrow> None
               | d # ds \<Rightarrow> if is_digit_of b d then read_digits b lead cs acc k else None))
      else Some (acc, k, c # cs))"

definition read_number :: "string \<Rightarrow> (int \<times> nat \<times> string) option" where
  "read_number u =
     (case u of
        c # d # rest \<Rightarrow>
          if c = CHR ''0'' \<and> (d = CHR ''x'' \<or> d = CHR ''X'') then read_digits 16 True rest 0 0
          else if c = CHR ''0'' \<and> (d = CHR ''o'' \<or> d = CHR ''O'') then read_digits 8 True rest 0 0
          else if c = CHR ''0'' \<and> (d = CHR ''b'' \<or> d = CHR ''B'') then read_digits 2 True rest 0 0
          else read_digits 10 False u 0 0
      | _ \<Rightarrow> read_digits 10 False u 0 0)"

definition pg_integer_in :: "string \<Rightarrow> int option" where
  "pg_integer_in s =
     (case read_number (strip_sign (dropWhile is_space s)) of
        None \<Rightarrow> None
      | Some (n, k, rest) \<Rightarrow>
          if 0 < k \<and> list_all is_space rest
          then (case dropWhile is_space s of
                  [] \<Rightarrow> None
                | c # cs \<Rightarrow>
                    if c = CHR ''-''
                    then (if n \<le> 2147483648 then Some (- n) else None)
                    else (if n \<le> 2147483647 then Some n else None))
          else None)"

definition select_user :: "database \<Rightarrow> string option \<Rightarrow> exn + user_row list" where
  "select_user db param =
     (case param of
        None \<Rightarrow> Inr (filter (\<lambda>u. u_id u = DEMO_USER_ID) (users db))
      | Some s \<Rightarrow>
          if s = [] then Inr (filter (\<lambda>u. u_id u = DEMO_USER_ID) (users db))
          else if parseInt_isNaN s then select_users_ilike db s
          else (case pg_integer_in s of
                  None \<Rightarrow> Inl QueryError
                | Some i \<Rightarrow> Inr (filter (\<lambda>u. u_id u = i) (users db))))"

text \<open>
  The statistics: \<^verbatim>\<open>COALESCE(SUM(ms_played), 0)\<close> and \<^verbatim>\<open>COUNT(DISTINCT track_name)\<close>
  over the rows of the user; both pass over nulls. \<^verbatim>\<open>Math.round(ms / 60000)\<close> rounds
  a half upwards. The lists \<^verbatim>\<open>topArtists\<close> and \<^verbatim>\<open>topSongs\<close> of the answer are left out.
\<close>

definition total_ms :: "database \<Rightarrow> int \<Rightarrow> int" where
  "total_ms db userId =
     sum_list (List.map_filter sh_ms_played
       (filter (\<lambda>r. sh_user_id r = userId) (streaming_history db)))"

definition total_songs :: "database \<Rightarrow> int \<Rightarrow> nat" where
  "total_songs db userId =
     length (remdups (List.map_filter sh_track_name
       (filter (\<lambda>r. sh_user_id r = userId) (streaming_history db))))"

definition round_minutes :: "int \<Rightarrow> int" where
  "round_minutes ms = (ms + 30000) div 60000"

record profile_response =
  pr_id :: int
  pr_username :: string
  pr_avatar :: string
  totalMinutes :: int
  totalSongs :: nat

definition get_user :: "database \<Rightarrow> string option \<Rightarrow> http_error + profile_response" where
  "get_user db param =
     (case select_user db param of
        Inl e \<Rightarrow> Inl ServerError
      | Inr [] \<Rightarrow> Inl NotFound
      | Inr (user # rest) \<Rightarrow>
          Inr \<lparr>pr_id = u_id user, pr_username = u_username user, pr_avatar = u_avatar user,
               totalMinutes = round_minutes (total_ms db (u_id user)),
               totalSongs = total_songs db (u_id user)\<rparr>)"

section \<open>The artist leaderboard\<close>

text \<open>
  The leaderboard query of \<^verbatim>\<open>GET /api/artist/:artistName\<close>: the history rows whose artist
  matches the name as an \<^verbatim>\<open>ILIKE\<close> pattern, joined with their users, one group for each
  user, with \<^verbatim>\<open>SUM(sh.ms_played)\<close> and \<^verbatim>\<open>COUNT(DISTINCT sh.track_name)\<close>. A sum over
  nulls only is null, and a null artist matches nothing. The query throws when the name is
  no text value and when the matcher raises its error on the artist of a history row; the
  handler then answers with status 500. The name is the parameter of the route as
  \<^verbatim>\<open>decodeURIComponent\<close> returns it.
\<close>

definition artist_ilike :: "string \<Rightarrow> history_row \<Rightarrow> like_result" where
  "artist_ilike artistName r =
     (case sh_artist_name r of None \<Rightarrow> LIKE_FALSE | Some a \<Rightarrow> ilike artistName a)"

definition artist_matches :: "string \<Rightarrow> history_row \<Rightarrow> bool" where
  "artist_matches artistName r = (artist_ilike artistName r = LIKE_TRUE)"

definition leaderboard_throws :: "database \<Rightarrow> string \<Rightarrow> bool" where
  "leaderboard_throws db artistName =
     (if text_ok artistName
      then list_ex (\<lambda>r. artist_ilike artistName r = LIKE_ERROR) (streaming_history db)
      else True)"

definition artist_plays :: "database \<Rightarrow> string \<Rightarrow> (history_row \<times> user_row) list" where
  "artist_plays db artistName =
     concat (map (\<lambda>r. map (Pair r) (filter (\<lambda>u. u_id u = sh_user_id r) (users db)))
       (filter (artist_matches artistName) (streaming_history db)))"

definition sql_sum :: "int option list \<Rightarrow> int option" where
  "sql_sum vs = (if List.map_filter id vs = [] then None else Some (sum_list (List.map_filter id vs)))"

record leaderboard_row =
  lb_user_id :: int
  lb_username :: string
  lb_avatar :: string
  lb_total_ms :: "int option"
  lb_song_count :: nat

definition leaderboard_group :: "(history_row \<times> user_row) list \<Rightarrow> user_row \<Rightarrow> leaderboard_row" where
  "leaderboard_group plays u =
     \<lparr>lb_user_id = u_id u, lb_username = u_username u, lb_avatar = u_avatar u,
      lb_total_ms = sql_sum (map (sh_ms_played \<circ> fst) (filter (\<lambda>p. snd p = u) plays)),
      lb_song_count =
        length (remdups (List.map_filter (sh_track_name \<circ> fst) (filter (\<lambda>p. snd p = u) plays)))\<rparr>"

definition leaderboard_groups :: "database \<Rightarrow> string \<Rightarrow> leaderboard_row list" where
  "leaderboard_groups db artistName =
     map (leaderboard_group (artist_plays db artistName))
       (remdups (map snd (artist_plays db artistName)))"

text \<open>
  The sum the query computes for a user: over the history rows of the user whose artist
  matches the name as a pattern.
\<close>

definition matched_total :: "database \<Rightarrow> string \<Rightarrow> int \<Rightarrow> int option" where
  "matched_total db artistName userId =
     sql_sum (map sh_ms_played
       (filter (\<lambda>r. sh_user_id r = userId \<and> artist_matches artistName r) (streaming_history db)))"

text \<open>
  \<^verbatim>\<open>ORDER BY total_ms DESC LIMIT 10\<close>. In descending order PostgreSQL puts nulls first,
  and it leaves the order of rows with equal sums open. So the answer of the query is not a
  function of the database: \<open>order_by_limit\<close> says whether \<open>rows\<close> is one of the answers
  the engine may give for the groups \<open>xs\<close>, which are distinct. A query that throws has no
  answer.
\<close>

definition desc_total :: "leaderboard_row \<Rightarrow> leaderboard_row \<Rightarrow> bool" where
  "desc_total a b =
     (case lb_total_ms a of
        None \<Rightarrow> True
      | Some x \<Rightarrow> (case lb_total_ms b of None \<Rightarrow> False | Some y \<Rightarrow> y \<le> x))"

definition order_by_limit :: "('a \<Rightarrow> 'a \<Rightarrow> bool) \<Rightarrow> nat \<Rightarrow> 'a list \<Rightarrow> 'a list \<Rightarrow> bool" where
  "order_by_limit ord n xs rows =
     (length rows = min n (length xs) \<and> distinct rows \<and> list_all (\<lambda>r. r \<in> set xs) rows \<and>
      sorted_wrt ord rows \<and>
      list_all (\<lambda>x. if x \<in> set rows then True else list_all (\<lambda>r. ord r x) rows) xs)"

definition leaderboard_query :: "database \<Rightarrow> string \<Rightarrow> leaderboard_row list \<Rightarrow> bool" where
  "leaderboard_query db artistName rows =
     (if leaderboard_throws db artistName then False
      else order_by_limit desc_total 10 (leaderboard_groups db artistName) rows)"

text \<open>
  One way to answer the query: sort the groups by insertion and take the first ten.
\<close>

fun insert_desc :: "leaderboard_row \<Rightarrow> leaderboard_row list \<Rightarrow> leaderboard_row list" where
  "insert_desc x [] = [x]"
| "insert_desc x (y # ys) = (if desc_total x y then x # y # ys else y # insert_desc x ys)"

definition sort_desc :: "leaderboard_row list \<Rightarrow> leaderboard_row list" where
  "sort_desc xs = foldr insert_desc xs []"

text \<open>The \<^verbatim>\<open>leaderboard\<close> of the answer: the rows of the query, ranked from 1.\<close>

record leaderboard_entry =
  le_rank :: nat
  le_userId :: int
  le_username :: string
  le_avatar :: string
  le_minutes :: "int option"
  le_songCount :: nat
  le_isCurrentUser :: bool

definition leaderboard_json :: "int \<Rightarrow> leaderboard_row list \<Rightarrow> leaderboard_entry list" where
  "leaderboard_json currentUserId rows =
     map (\<lambda>(i, r).
            \<lparr>le_rank = i + 1, le_userId = lb_user_id r, le_username = lb_username r,
             le_avatar = lb_avatar r, le_minutes = map_option round_minutes (lb_total_ms r),
             le_songCount = lb_song_count r, le_isCurrentUser = (lb_user_id r = currentUserId)\<rparr>)
       (enumerate 0 rows)"

section \<open>Comments and likes\<close>

text \<open>
  \<^verbatim>\<open>POST /api/artist/:artistName/comment\<close>, for the user of the request, who is the demo
  user in the first revision. A parameter that is no value of its type (a user key that is
  no 32-bit integer, an artist name that does not fit, a text with a NUL character) is
  rejected before the insert runs, and the sequence of the keys stays where it was.
  Otherwise the key is drawn from the sequence, and the insert throws when the content is
  null, when the user is not in \<^verbatim>\<open>users\<close> and when the key is taken. A new comment
  has \<^verbatim>\<open>likes\<close> 0 by the column default. The answer carries the key and the content of
  the new row.
\<close>

definition comment_exists :: "comment_row list \<Rightarrow> int \<Rightarrow> bool" where
  "comment_exists cs commentId = list_ex (\<lambda>c. c_id c = commentId) cs"

definition comment_params_ok :: "int \<Rightarrow> string \<Rightarrow> string option \<Rightarrow> bool" where
  "comment_params_ok userId artistName content =
     (integer_null_ok (Some userId) \<and> varchar_ok 500 artistName \<and>
      (case content of None \<Rightarrow> True | Some body \<Rightarrow> text_ok body))"

definition post_comment ::
  "database \<Rightarrow> int \<Rightarrow> string \<Rightarrow> string option \<Rightarrow> (http_error + int \<times> string) \<times> database" where
  "post_comment db userId artistName content =
     (if comment_params_ok userId artistName content then
        (case content of
           None \<Rightarrow> (Inl ServerError, db\<lparr>comments_id_seq := comments_id_seq db + 1\<rparr>)
         | Some body \<Rightarrow>
             if user_exists (users db) userId \<and>
                \<not> comment_exists (comments db) (comments_id_seq db + 1)
             then (Inr (comments_id_seq db + 1, body),
                   db\<lparr>comments := comments db @
                        [\<lparr>c_id = comments_id_seq db + 1, c_user_id = userId,
                          c_artist_name = take 500 artistName, c_content = body, c_likes = 0\<rparr>],
                      comments_id_seq := comments_id_seq db + 1\<rparr>)
             else (Inl ServerError, db\<lparr>comments_id_seq := comments_id_seq db + 1\<rparr>))
      else (Inl ServerError, db))"

text \<open>
  \<^verbatim>\<open>POST /api/comment/:commentId/like\<close>, three statements without a transaction.
  \<^verbatim>\<open>INSERT INTO comment_likes ... ON CONFLICT DO NOTHING\<close> adds nothing when the pair is
  there (\<^verbatim>\<open>UNIQUE(comment_id, user_id)\<close>) and throws when the comment or the user is
  missing. \<^verbatim>\<open>UPDATE comments SET likes = (SELECT COUNT( * ) ...) WHERE id = $1\<close> counts anew.
  The last statement reads the count back; \<^verbatim>\<open>result.rows[0].likes\<close> throws when there is
  no such comment. The comment key is what \<^verbatim>\<open>parseInt\<close> made of the parameter, \<open>None\<close>
  for \<^verbatim>\<open>NaN\<close>, which no statement accepts.
\<close>

definition count_likes :: "database \<Rightarrow> int \<Rightarrow> int" where
  "count_likes db commentId =
     int (length (filter (\<lambda>l. l_comment_id l = commentId) (comment_likes db)))"

definition update_likes :: "database \<Rightarrow> int \<Rightarrow> database" where
  "update_likes db commentId =
     db\<lparr>comments :=
          map (\<lambda>c. if c_id c = commentId then c\<lparr>c_likes := count_likes db commentId\<rparr> else c)
            (comments db)\<rparr>"

definition read_likes :: "database \<Rightarrow> int \<Rightarrow> (http_error + int) \<times> database" where
  "read_likes db commentId =
     (case filter (\<lambda>c. c_id c = commentId) (comments db) of
        [] \<Rightarrow> (Inl ServerError, db)
      | c # rest \<Rightarrow> (Inr (c_likes c), db))"

definition like_comment :: "database \<Rightarrow> int \<Rightarrow> int option \<Rightarrow> (http_error + int) \<times> database" where
  "like_comment db userId param =
     (case param of
        None \<Rightarrow> (Inl ServerError, db)
      | Some commentId \<Rightarrow>
          if \<not> integer_null_ok (Some commentId) then (Inl ServerError, db)
          else if list_ex (\<lambda>l. l_comment_id l = commentId \<and> l_user_id l = userId) (comment_likes db)
          then read_likes (update_likes db commentId) commentId
          else if comment_exists (comments db) commentId \<and> user_exists (users db) userId
          then read_likes
                 (update_likes
                    (db\<lparr>comment_likes := comment_likes db @
                          [\<lparr>l_comment_id = commentId, l_user_id = userId\<rparr>]\<rparr>)
                    commentId)
                 commentId
          else (Inl ServerError, db))"


section \<open>The states the server reaches\<close>

text \<open>
  The database starts from \<^verbatim>\<open>initDb\<close> and changes by the handlers and the startup
  functions. The handlers that are not modelled (signup, set-password, the Spotify sync)
  write the tables \<^verbatim>\<open>users\<close> and \<^verbatim>\<open>streaming_history\<close> only; the last rule stands
  for them.
\<close>

inductive reachable :: "database \<Rightarrow> bool" where
  started: "reachable initDb"
| ensured: "reachable db \<Longrightarrow> reachable (ensureDemoUser db)"
| loaded: "reachable db \<Longrightarrow> reachable (loadDemoData db files)"
| synced: "reachable db \<Longrightarrow> reachable (syncAllUsersFromFiles db userFilesMap)"
| uploaded: "reachable db \<Longrightarrow> reachable (snd (upload db body_username uuid files))"
| commented: "reachable db \<Longrightarrow> reachable (snd (post_comment db userId artistName content))"
| liked: "reachable db \<Longrightarrow> reachable (snd (like_comment db userId param))"
| other: "reachable db \<Longrightarrow>
     reachable (db\<lparr>users := us, users_id_seq := n, streaming_history := h\<rparr>)"

text \<open>
  The tables of comments and likes, which the handlers for history never write, and what
  holds of them in every state: the stored count of each comment is the number of like rows
  for it, and each like row is for a comment that exists.
\<close>

definition social :: "database \<Rightarrow> comment_row list \<times> like_row list" where
  "social db = (comments db, comment_likes db)"

definition likes_inv :: "comment_row list \<Rightarrow> like_row list \<Rightarrow> bool" where
  "likes_inv cs ls =
     (list_all (\<lambda>c. c_likes c = int (length (filter (\<lambda>l. l_comment_id l = c_id c) ls))) cs \<and>
      list_all (\<lambda>l. comment_exists cs (l_comment_id l)) ls)"

section \<open>What the specification speaks of\<close>

text \<open>
  The specification describes the batch inserter as a partition of the validated records
  into chunks of fixed size, one insert statement for each. \<open>chunks\<close> is that
  partition. \<open>accepted\<close> are the chunks the database takes before the first one it
  rejects, and \<open>imported\<close> the records of a file that are in them: none for a file
  that cannot be parsed.
\<close>

function chunks :: "nat \<Rightarrow> 'a list \<Rightarrow> 'a list list" where
  "chunks n xs = (if n = 0 \<or> xs = [] then [] else take n xs # chunks n (drop n xs))"
  by pat_completeness auto
termination
  by (relation "measure (\<lambda>(n, xs). length xs)") auto

definition accepted :: "user_row list \<Rightarrow> int \<Rightarrow> raw_entry list \<Rightarrow> raw_entry list list" where
  "accepted us userId vs = takeWhile (batch_ok us userId) (chunks BATCH_SIZE vs)"

definition imported :: "user_row list \<Rightarrow> int \<Rightarrow> history_file \<Rightarrow> raw_entry list" where
  "imported us userId file =
     (case file of None \<Rightarrow> [] | Some data \<Rightarrow> concat (accepted us userId (validRecords data)))"

text \<open>
  The specification ranks the users by their summed listening duration for an artist, and
  compares texts without regard to letter case. \<open>equal_ignoring_case\<close> is that
  comparison, and \<open>summed_duration\<close> the sum of \<^verbatim>\<open>ms_played\<close> over the history rows
  of a user whose artist is the given one; there is none for a user without a duration for
  the artist. A name is \<open>plain\<close> when none of its characters has a meaning in a
  pattern.
\<close>

definition equal_ignoring_case :: "string \<Rightarrow> string \<Rightarrow> bool" where
  "equal_ignoring_case a b = (map lower_char a = map lower_char b)"

definition summed_duration :: "database \<Rightarrow> string \<Rightarrow> int \<Rightarrow> int option" where
  "summed_duration db artistName userId =
     sql_sum (map sh_ms_played
       (filter (\<lambda>r. sh_user_id r = userId \<and>
                    (case sh_artist_name r of
                       None \<Rightarrow> False
                     | Some a \<Rightarrow> equal_ignoring_case a artistName))
          (streaming_history db)))"

definition plain :: "string \<Rightarrow> bool" where
  "plain p = list_all (\<lambda>c. c \<noteq> CHR ''%'' \<and> c \<noteq> CHR ''_'' \<and> c \<noteq> CHR 0x5C) p"

section \<open>Example data\<close>

text \<open>
  A history entry with every field present, and the database in which the user Nova has
  been created by a first upload.
\<close>

definition song :: "string \<Rightarrow> int \<Rightarrow> raw_entry" where
  "song name ms =
     \<lparr>ts = Some 0, master_metadata_track_name = Some name,
      master_metadata_album_artist_name = Some ''Artist'',
      master_metadata_album_album_name = Some ''Album'', ms_played = Some ms,
      spotify_track_uri = Some ''spotify:track:1'', platform = Some ''ios''\<rparr>"

definition nova_db :: database where
  "nova_db = initDb\<lparr>users := [\<lparr>u_id = 1, u_username = ''Nova'', u_avatar = ''goat''\<rparr>],
     users_id_seq := 1\<rparr>"

text \<open>A database whose one user has the name of Nova in small letters.\<close>

definition lower_nova_db :: database where
  "lower_nova_db = initDb\<lparr>users := [\<lparr>u_id = 1, u_username = ''nova'', u_avatar = ''goat''\<rparr>],
     users_id_seq := 1\<rparr>"

text \<open>The database in which Nova has one history row.\<close>

definition two_plays_db :: database where
  "two_plays_db = nova_db\<lparr>streaming_history := [stored_row 1 (song ''A'' 1000)]\<rparr>"

text \<open>The database after Nova has posted a comment.\<close>

definition commented_db :: database where
  "commented_db = snd (post_comment nova_db 1 ''Artist'' (Some ''hi''))"

text \<open>Two users with plays of one artist, and the answer of the leaderboard query for it.\<close>

definition lb_db :: database where
  "lb_db = initDb\<lparr>users := [\<lparr>u_id = 1, u_username = ''Nova'', u_avatar = ''goat''\<rparr>,
                             \<lparr>u_id = 2, u_username = ''Vega'', u_avatar = ''goat''\<rparr>],
     users_id_seq := 2,
     streaming_history := [stored_row 1 (song ''A'' 1000), stored_row 2 (song ''B'' 5000),
                           stored_row 1 (song ''C'' 2000)]\<rparr>"

text \<open>
  A play of a track by an artist, and a database in which the names of two artists match the
  pattern \<^verbatim>\<open>A_\<close>, with the answer of the leaderboard query for that name.
\<close>

definition play :: "string \<Rightarrow> string \<Rightarrow> int \<Rightarrow> raw_entry" where
  "play artist name ms = (song name ms)\<lparr>master_metadata_album_artist_name := Some artist\<rparr>"

definition wild_db :: database where
  "wild_db = initDb\<lparr>users := [\<lparr>u_id = 1, u_username = ''Nova'', u_avatar = ''goat''\<rparr>,
                               \<lparr>u_id = 2, u_username = ''Vega'', u_avatar = ''goat''\<rparr>],
     users_id_seq := 2,
     streaming_history := [stored_row 1 (play ''A_'' ''S'' 5000), stored_row 2 (play ''A_'' ''T'' 3000),
                           stored_row 2 (play ''AB'' ''U'' 10000)]\<rparr>"

definition wild_rows :: "leaderboard_row list" where
  "wild_rows = [\<lparr>lb_user_id = 2, lb_username = ''Vega'', lb_avatar = ''goat'',
                  lb_total_ms = Some 13000, lb_song_count = 2\<rparr>,
                \<lparr>lb_user_id = 1, lb_username = ''Nova'', lb_avatar = ''goat'',
                  lb_total_ms = Some 5000, lb_song_count = 1\<rparr>]"

definition lb_rows :: "leaderboard_row list" where
  "lb_rows = [\<lparr>lb_user_id = 2, lb_username = ''Vega'', lb_avatar = ''goat'',
                lb_total_ms = Some 5000, lb_song_count = 1\<rparr>,
              \<lparr>lb_user_id = 1, lb_username = ''Nova'', lb_avatar = ''goat'',
                lb_total_ms = Some 3000, lb_song_count = 2\<rparr>]"

section \<open>The batch inserter is the partition into chunks\<close>

declare chunks.simps [simp del]
declare insert_batches.simps [simp del]

lemma chunks_Nil: "chunks n [] = []"
  by (simp add: chunks.simps)

lemma chunks_step: "0 < n \<Longrightarrow> xs \<noteq> [] \<Longrightarrow> chunks n xs = take n xs # chunks n (drop n xs)"
  by (subst chunks.simps) simp

lemma concat_chunks: "0 < n \<Longrightarrow> concat (chunks n xs) = xs"
proof (induction n xs rule: chunks.induct)
  case (1 n xs)
  then show ?case
    by (cases "xs = []") (simp_all add: chunks_step chunks_Nil)
qed

lemma ceil_step:
  fixes n L :: nat
  assumes "0 < n" and "0 < L"
  shows "(L + n - 1) div n = Suc ((L - n + n - 1) div n)"
proof -
  from assms obtain k where L: "L = Suc k" by (cases L) auto
  have b: "(n + k) div n = Suc (k div n)" using assms div_add_self1[of n k] by simp
  have a: "L + n - 1 = n + k" using L by simp
  show ?thesis
  proof (cases "L \<le> n")
    case True
    then have c: "L - n + n - 1 = n - 1" and d: "k < n" using assms L by arith+
    have "(n - 1) div n = 0" "k div n = 0" using assms d by simp_all
    then show ?thesis by (simp only: a b c)
  next
    case False
    then have c: "L - n + n - 1 = k" using L by arith
    show ?thesis by (simp only: a b c)
  qed
qed

lemma length_chunks: "0 < n \<Longrightarrow> length (chunks n xs) = (length xs + n - 1) div n"
proof (induction n xs rule: chunks.induct)
  case (1 n xs)
  show ?case
  proof (cases "xs = []")
    case True
    with 1 show ?thesis by (simp add: chunks_Nil)
  next
    case False
    with 1 have "length (chunks n (drop n xs)) = (length (drop n xs) + n - 1) div n"
      by simp
    with False 1 ceil_step[of n "length xs"] show ?thesis
      by (simp add: chunks_step)
  qed
qed

lemma chunks_bounds: "0 < n \<Longrightarrow> b \<in> set (chunks n xs) \<Longrightarrow> b \<noteq> [] \<and> length b \<le> n"
proof (induction n xs rule: chunks.induct)
  case (1 n xs)
  then show ?case
    by (cases "xs = []") (auto simp: chunks_step chunks_Nil)
qed

lemma slice_step: "slice i (i + n) vs = take n (drop i vs)"
  by (simp add: slice_def)

lemma insert_batches_chunks:
  "insert_batches db userId vs i t issued =
     \<lparr>lr_db = db\<lparr>streaming_history := streaming_history db @
          map (stored_row userId) (concat (accepted (users db) userId (drop i vs)))\<rparr>,
      lr_total = t + length (concat (accepted (users db) userId (drop i vs))),
      lr_issued = issued @ take (Suc (length (accepted (users db) userId (drop i vs))))
          (chunks BATCH_SIZE (drop i vs)),
      lr_thrown = (if length (accepted (users db) userId (drop i vs)) =
                      length (chunks BATCH_SIZE (drop i vs)) then None else Some QueryError)\<rparr>"
proof (induction db userId vs i t issued rule: insert_batches.induct)
  case (1 db userId vs i t issued)
  show ?case
  proof (cases "i < length vs")
    case False
    then show ?thesis
      by (subst insert_batches.simps) (simp add: accepted_def chunks_Nil)
  next
    case True
    let ?b = "slice i (i + BATCH_SIZE) vs"
    have ch: "chunks BATCH_SIZE (drop i vs) = ?b # chunks BATCH_SIZE (drop (i + BATCH_SIZE) vs)"
      using True by (simp add: chunks_step BATCH_SIZE_def slice_step add.commute)
    show ?thesis
    proof (cases "batch_ok (users db) userId ?b")
      case False
      then have "insert_history db userId ?b = Inl QueryError"
        by (simp add: insert_history_def)
      with True False show ?thesis
        by (subst insert_batches.simps) (simp add: accepted_def ch)
    next
      case ok: True
      let ?db' = "db\<lparr>streaming_history := streaming_history db @ map (stored_row userId) ?b\<rparr>"
      have ins: "insert_history db userId ?b = Inr ?db'"
        using ok by (simp add: insert_history_def)
      have step: "insert_batches db userId vs i t issued =
          insert_batches ?db' userId vs (i + BATCH_SIZE) (t + length ?b) (issued @ [?b])"
        using True ins by (subst insert_batches.simps) simp
      show ?thesis
        unfolding step "1.IH"[OF True ins]
        using ok by (simp add: accepted_def ch)
    qed
  qed
qed


lemma import_file_chunks:
  "import_file db userId (Some data) t =
     \<lparr>lr_db = db\<lparr>streaming_history := streaming_history db @
          map (stored_row userId) (imported (users db) userId (Some data))\<rparr>,
      lr_total = t + length (imported (users db) userId (Some data)),
      lr_issued = take (Suc (length (accepted (users db) userId (validRecords data))))
          (chunks BATCH_SIZE (validRecords data)),
      lr_thrown = (if length (accepted (users db) userId (validRecords data)) =
                      length (chunks BATCH_SIZE (validRecords data)) then None else Some QueryError)\<rparr>"
  by (simp add: import_file_def imported_def insert_batches_chunks)

lemma import_file_db:
  "lr_db (import_file db userId f t) =
     db\<lparr>streaming_history := streaming_history db @
          map (stored_row userId) (imported (users db) userId f)\<rparr>"
  by (cases f) (simp_all add: import_file_chunks, simp add: import_file_def imported_def)

lemma import_file_total:
  "lr_total (import_file db userId f t) = t + length (imported (users db) userId f)"
  by (cases f) (simp_all add: import_file_chunks, simp add: import_file_def imported_def)

lemma import_files_eq:
  "import_files db userId files t =
     (db\<lparr>streaming_history := streaming_history db @
          map (stored_row userId) (concat (map (imported (users db) userId) files))\<rparr>,
      t + length (concat (map (imported (users db) userId) files)))"
proof (induction files arbitrary: db t)
  case Nil
  then show ?case by simp
next
  case (Cons f fs)
  show ?case
    by (simp add: Cons.IH import_file_db import_file_total)
qed


lemma concat_take_prefix:
  "concat (take k xss) = take (length (concat (take k xss))) (concat xss)"
proof -
  have "concat xss = concat (take k xss) @ concat (drop k xss)"
    by (metis concat_append append_take_drop_id)
  then show ?thesis by simp
qed



text \<open>Facts for running the model on the example data.\<close>

lemmas eval_defs = import_file_def validRecords_def valid_def song_def row_ok_def
  varchar_null_ok_def varchar_ok_def text_ok_def integer_null_ok_def batch_ok_def user_exists_def
  insert_history_def stored_row_def BATCH_SIZE_def slice_def nova_db_def initDb_def
  insert_batches.simps

lemmas chunk_eval = imported_def accepted_def validRecords_def valid_def song_def row_ok_def
  varchar_null_ok_def varchar_ok_def text_ok_def integer_null_ok_def batch_ok_def user_exists_def
  BATCH_SIZE_def nova_db_def initDb_def chunks.simps stored_row_def

lemma resolve_nova:
  "upload_resolve_user initDb (upload_username (Some ''Nova'') []) = (Inr 1, nova_db)"
  by (simp add: upload_resolve_user_def upload_username_def insert_user_def initDb_def nova_db_def
      varchar_ok_def text_ok_def user_exists_def)

lemma upload_resolved:
  "upload_resolve_user db (upload_username body_username uuid) = (Inr userId, db1) \<Longrightarrow>
     upload db body_username uuid (Some files) =
       (Inr \<lparr>ur_userId = userId,
             ur_recordsImported = length (concat (map (imported (users db1) userId) files))\<rparr>,
        db1\<lparr>streaming_history := streaming_history db1 @
             map (stored_row userId) (concat (map (imported (users db1) userId) files))\<rparr>)"
  by (simp add: upload_def import_files_eq)

lemma sync_user_resolved:
  "sync_resolve_user db (fst entry) = (Inr userId, db1) \<Longrightarrow> count_history db1 userId = 0 \<Longrightarrow>
     sync_user db entry =
       db1\<lparr>streaming_history := streaming_history db1 @
            map (stored_row userId) (concat (map (imported (users db1) userId) (snd entry)))\<rparr>"
  by (simp add: sync_user_def import_files_eq)

text \<open>
  A plain pattern matches a text exactly when the two are equal up to letter case, and the
  matcher raises no error on it.
\<close>

lemma MatchText_plain:
  "plain p \<Longrightarrow> (MatchText t p = LIKE_TRUE) = (t = p) \<and> MatchText t p \<noteq> LIKE_ERROR"
proof (induction p arbitrary: t)
  case Nil
  then show ?case by (cases t) simp_all
next
  case (Cons c ps)
  then have c: "c \<noteq> CHR ''%''" "c \<noteq> CHR ''_''" "c \<noteq> CHR 0x5C" and ps: "plain ps"
    by (simp_all add: plain_def)
  show ?case
  proof (cases t)
    case Nil
    with c show ?thesis by simp
  next
    case (Cons x xs)
    with c Cons.IH[OF ps, of xs] show ?thesis by auto
  qed
qed

lemma plain_lower: "plain (map lower_char p) = plain p"
proof -
  have "lower_char c \<in> {CHR ''%'', CHR ''_'', CHR 0x5C} \<longleftrightarrow> c \<in> {CHR ''%'', CHR ''_'', CHR 0x5C}"
    for c
    by (cases c) auto
  then show ?thesis
    by (auto simp: plain_def list_all_iff)
qed

lemma ilike_plain:
  assumes "plain p"
  shows "(ilike p s = LIKE_TRUE) = equal_ignoring_case s p" and "ilike p s \<noteq> LIKE_ERROR"
  using MatchText_plain[of "map lower_char p" "map lower_char s"] assms
  by (simp_all add: ilike_def plain_lower equal_ignoring_case_def)

lemma plain_Nova: "plain ''Nova''"
  by (simp add: plain_def)

section \<open>C1: which records are persisted\<close>




section \<open>C2: the batches\<close>

lemma chunks_full: "0 < n \<Longrightarrow> list_all (\<lambda>b. length b = n) (butlast (chunks n xs))"
proof (induction n xs rule: chunks.induct)
  case (1 n xs)
  show ?case
  proof (cases "xs = [] \<or> drop n xs = []")
    case True
    with 1 show ?thesis
      by (cases "xs = []") (simp_all add: chunks_step chunks_Nil)
  next
    case False
    then have "chunks n (drop n xs) \<noteq> []" "n < length xs"
      using 1 by (simp_all add: chunks_step)
    with 1 False show ?thesis
      by (simp add: chunks_step)
  qed
qed

lemma butlast_take_Suc:
  "k \<le> length xs \<Longrightarrow> butlast (take (Suc k) xs) = take k (butlast xs)"
proof (cases "k < length xs")
  case True
  then show ?thesis by (simp add: butlast_take take_butlast)
next
  case False
  assume "k \<le> length xs"
  with False show ?thesis by simp
qed

text \<open>
  Claim C2 says that N validated records always give \<open>\<lceil>N/500\<rceil>\<close> insert statements whose
  batches together are the input. That fails when a statement throws before the last one:
  of the 501 validated records below the first does not fit the \<^verbatim>\<open>INTEGER\<close> column, the
  first statement throws, and the second of the two statements is never sent.
\<close>

theorem fewer_statements_after_throw:
  "length (lr_issued (import_file nova_db 1
     (Some (song ''A'' 3000000000 # replicate 500 (song ''B'' 1000))) 0)) = 1 \<and>
   (length (filter valid (song ''A'' 3000000000 # replicate 500 (song ''B'' 1000))) + 499) div 500 = 2"
  by (simp add: eval_defs)

text \<open>
  Claim C2, amended. For every file and database, with \<open>users\<close> the table that decides
  whether a statement is accepted (\<open>batch_ok\<close>; the loop does not change it): every
  statement the batch inserter sends carries between 1 and 500 records, every statement
  but the last one sent carries exactly 500, and the batches sent, in the order of sending,
  are together a prefix of the validated records. Every statement but the last one sent was
  accepted. When no statement throws, the last one was accepted too, there are exactly
  \<open>\<lceil>N/500\<rceil>\<close> statements for N validated records, and the batches together are the
  validated records in their order, so that every record is in exactly one batch. When a
  statement throws, it is the last one sent: no statement follows it.
\<close>

theorem batches_partition_records:
  "list_all (\<lambda>b. b \<noteq> [] \<and> length b \<le> 500) (lr_issued (import_file db userId (Some data) t)) \<and>
   list_all (\<lambda>b. length b = 500) (butlast (lr_issued (import_file db userId (Some data) t))) \<and>
   concat (lr_issued (import_file db userId (Some data) t)) =
     take (length (concat (lr_issued (import_file db userId (Some data) t)))) (filter valid data) \<and>
   list_all (batch_ok (users db) userId) (butlast (lr_issued (import_file db userId (Some data) t))) \<and>
   (lr_thrown (import_file db userId (Some data) t) = None \<longrightarrow>
      list_all (batch_ok (users db) userId) (lr_issued (import_file db userId (Some data) t)) \<and>
      length (lr_issued (import_file db userId (Some data) t)) =
        (length (filter valid data) + 499) div 500 \<and>
      concat (lr_issued (import_file db userId (Some data) t)) = filter valid data) \<and>
   (lr_thrown (import_file db userId (Some data) t) \<noteq> None \<longrightarrow>
      lr_issued (import_file db userId (Some data) t) \<noteq> [] \<and>
      \<not> batch_ok (users db) userId (last (lr_issued (import_file db userId (Some data) t))))"
proof -
  let ?vs = "filter valid data"
  let ?chs = "chunks BATCH_SIZE ?vs"
  let ?acc = "accepted (users db) userId ?vs"
  let ?k = "Suc (length ?acc)"
  have iss: "lr_issued (import_file db userId (Some data) t) = take ?k ?chs"
    by (simp add: import_file_chunks validRecords_def)
  have thr: "lr_thrown (import_file db userId (Some data) t) = None \<longleftrightarrow> length ?acc = length ?chs"
    by (simp add: import_file_chunks validRecords_def)
  have le: "length ?acc \<le> length ?chs"
    by (simp add: accepted_def length_takeWhile_le)
  have acc: "take (length ?acc) ?chs = ?acc"
    unfolding accepted_def by (rule takeWhile_eq_take[symmetric])
  have ok: "list_all (batch_ok (users db) userId) ?acc"
    unfolding accepted_def list_all_iff by (auto dest: set_takeWhileD)
  have "\<forall>b \<in> set (take ?k ?chs). b \<noteq> [] \<and> length b \<le> 500"
    using chunks_bounds[of BATCH_SIZE _ ?vs] set_take_subset[of ?k ?chs]
    by (auto simp: BATCH_SIZE_def)
  then have a: "list_all (\<lambda>b. b \<noteq> [] \<and> length b \<le> 500) (take ?k ?chs)"
    by (simp add: list_all_iff)
  have full: "list_all (\<lambda>b. length b = 500) (butlast ?chs)"
    using chunks_full[of BATCH_SIZE ?vs] by (simp add: BATCH_SIZE_def)
  have bl: "butlast (take ?k ?chs) = take (length ?acc) (butlast ?chs)"
    using le by (rule butlast_take_Suc)
  have f: "list_all (\<lambda>b. length b = 500) (butlast (take ?k ?chs))"
    unfolding bl using full set_take_subset[of "length ?acc" "butlast ?chs"]
    by (auto simp: list_all_iff)
  have b: "concat (take ?k ?chs) = take (length (concat (take ?k ?chs))) ?vs"
    using concat_take_prefix[of ?k ?chs] by (simp add: concat_chunks BATCH_SIZE_def)
  have sub: "set (butlast (take ?k ?chs)) \<subseteq> set ?acc"
  proof
    fix b
    assume "b \<in> set (butlast (take ?k ?chs))"
    then have "b \<in> set (take (length ?acc) (butlast ?chs))"
      by (simp only: bl)
    then obtain i where i: "i < length ?acc" "i < length (butlast ?chs)" "b = butlast ?chs ! i"
      by (auto simp: in_set_conv_nth)
    then have "b = ?chs ! i"
      by (simp add: nth_butlast)
    with i(1) le have "b = take (length ?acc) ?chs ! i"
      by simp
    with i(1) acc show "b \<in> set ?acc"
      by (metis nth_mem)
  qed
  have g: "list_all (batch_ok (users db) userId) (butlast (take ?k ?chs))"
    using ok sub by (auto simp: list_all_iff)
  have c: "list_all (batch_ok (users db) userId) (take ?k ?chs) \<and>
      length (take ?k ?chs) = (length ?vs + 499) div 500 \<and> concat (take ?k ?chs) = ?vs"
    if "lr_thrown (import_file db userId (Some data) t) = None"
  proof -
    from that thr have eq: "length ?acc = length ?chs" by simp
    then have all: "take ?k ?chs = ?chs" by simp
    from eq acc have "?acc = ?chs" by simp
    with ok all show ?thesis
      using length_chunks[of BATCH_SIZE ?vs] by (simp add: concat_chunks BATCH_SIZE_def)
  qed
  have d: "take ?k ?chs \<noteq> [] \<and> \<not> batch_ok (users db) userId (last (take ?k ?chs))"
    if "lr_thrown (import_file db userId (Some data) t) \<noteq> None"
  proof -
    from that thr le have lt: "length ?acc < length ?chs" by simp
    then have "take ?k ?chs = take (length ?acc) ?chs @ [?chs ! length ?acc]"
      by (simp add: take_Suc_conv_app_nth)
    moreover have "\<not> batch_ok (users db) userId (?chs ! length ?acc)"
      using lt unfolding accepted_def by (rule nth_length_takeWhile)
    ultimately show ?thesis by simp
  qed
  from a f b g c d show ?thesis unfolding iss by blast
qed

theorem batches_partition_records_witness:
  "lr_thrown (import_file nova_db 1
      (Some (replicate 500 (song ''A'' 1000) @ [song ''B'' 0, song ''C'' 5])) 0) = None \<and>
   length (lr_issued (import_file nova_db 1
      (Some (replicate 500 (song ''A'' 1000) @ [song ''B'' 0, song ''C'' 5])) 0)) = 2 \<and>
   concat (lr_issued (import_file nova_db 1
      (Some (replicate 500 (song ''A'' 1000) @ [song ''B'' 0, song ''C'' 5])) 0)) =
     replicate 500 (song ''A'' 1000) @ [song ''C'' 5] \<and>
   lr_thrown (import_file nova_db 1
      (Some (replicate 500 (song ''A'' 1000) @ [song ''X'' 3000000000])) 0) = Some QueryError \<and>
   \<not> batch_ok (users nova_db) 1 (last (lr_issued (import_file nova_db 1
      (Some (replicate 500 (song ''A'' 1000) @ [song ''X'' 3000000000])) 0)))"
proof -
  let ?d1 = "replicate 500 (song ''A'' 1000) @ [song ''B'' 0, song ''C'' 5]"
  let ?d2 = "replicate 500 (song ''A'' 1000) @ [song ''X'' 3000000000]"
  have t1: "lr_thrown (import_file nova_db 1 (Some ?d1) 0) = None"
    by (simp add: eval_defs list_all_iff)
  have v1: "filter valid ?d1 = replicate 500 (song ''A'' 1000) @ [song ''C'' 5]"
    by (simp add: valid_def song_def)
  have t2: "lr_thrown (import_file nova_db 1 (Some ?d2) 0) = Some QueryError"
    by (simp add: eval_defs list_all_iff)
  from batches_partition_records[of nova_db 1 ?d1 0, unfolded v1] t1
  have "length (lr_issued (import_file nova_db 1 (Some ?d1) 0)) =
      (length (replicate 500 (song ''A'' 1000) @ [song ''C'' 5]) + 499) div 500 \<and>
    concat (lr_issued (import_file nova_db 1 (Some ?d1) 0)) =
      replicate 500 (song ''A'' 1000) @ [song ''C'' 5]"
    by blast
  moreover from batches_partition_records[of nova_db 1 ?d2 0] t2
  have "\<not> batch_ok (users nova_db) 1 (last (lr_issued (import_file nova_db 1 (Some ?d2) 0)))"
    by simp
  ultimately show ?thesis using t1 t2 by simp
qed


section \<open>C7: an error in one file\<close>

text \<open>
  Claim C7 says that the count \<^verbatim>\<open>recordsImported\<close> of an upload is accumulated from the
  files that succeeded. The counter grows after every statement that succeeds, also in a
  file that fails later. In the upload of two files below, the first file has 501 validated
  records: its first statement stores 500 of them and its second one throws. The second
  file has one record and succeeds. The answer counts 501 records, where the files that
  succeeded hold one.
\<close>

theorem failed_file_is_counted:
  "lr_thrown (import_file nova_db 1
      (Some (replicate 500 (song ''B'' 1000) @ [song ''A'' 3000000000])) 0) = Some QueryError \<and>
   lr_thrown (import_file
      (lr_db (import_file nova_db 1
         (Some (replicate 500 (song ''B'' 1000) @ [song ''A'' 3000000000])) 0)) 1
      (Some [song ''C'' 2000])
      (lr_total (import_file nova_db 1
         (Some (replicate 500 (song ''B'' 1000) @ [song ''A'' 3000000000])) 0))) = None \<and>
   length (filter valid [song ''C'' 2000]) = 1 \<and>
   fst (upload initDb (Some ''Nova'') []
      (Some [Some (replicate 500 (song ''B'' 1000) @ [song ''A'' 3000000000]),
             Some [song ''C'' 2000]])) =
     Inr \<lparr>ur_userId = 1, ur_recordsImported = 501\<rparr>"
proof -
  let ?f1 = "replicate 500 (song ''B'' 1000) @ [song ''A'' 3000000000]"
  have c: "chunks 500 ?f1 = [replicate 500 (song ''B'' 1000), [song ''A'' 3000000000]]"
    by (simp add: chunks.simps)
  have v: "validRecords ?f1 = ?f1"
    by (simp add: validRecords_def valid_def song_def)
  have a: "accepted (users nova_db) 1 ?f1 = [replicate 500 (song ''B'' 1000)]"
    unfolding accepted_def BATCH_SIZE_def c
    by (simp add: batch_ok_def list_all_iff row_ok_def song_def varchar_null_ok_def varchar_ok_def
        text_ok_def integer_null_ok_def user_exists_def nova_db_def initDb_def)
  have i1: "imported (users nova_db) 1 (Some ?f1) = replicate 500 (song ''B'' 1000)"
    by (simp add: imported_def v a)
  have i2: "imported (users nova_db) 1 (Some [song ''C'' 2000]) = [song ''C'' 2000]"
    by (simp add: chunk_eval)
  have t1: "lr_thrown (import_file nova_db 1 (Some ?f1) 0) = Some QueryError"
    by (simp add: import_file_chunks v a c BATCH_SIZE_def)
  have u: "users (lr_db (import_file nova_db 1 (Some ?f1) 0)) = users nova_db"
    by (simp add: import_file_db)
  have t2: "lr_thrown (import_file (lr_db (import_file nova_db 1 (Some ?f1) 0)) 1
      (Some [song ''C'' 2000]) (lr_total (import_file nova_db 1 (Some ?f1) 0))) = None"
    unfolding import_file_chunks[of "lr_db (import_file nova_db 1 (Some ?f1) 0)"] u
    by (simp add: chunk_eval)
  have n: "length (filter valid [song ''C'' 2000]) = 1"
    by (simp add: valid_def song_def)
  have r: "fst (upload initDb (Some ''Nova'') [] (Some [Some ?f1, Some [song ''C'' 2000]])) =
      Inr \<lparr>ur_userId = 1, ur_recordsImported = 501\<rparr>"
    using upload_resolved[OF resolve_nova, of "[Some ?f1, Some [song ''C'' 2000]]"]
    by (simp add: i1 i2)
  from t1 t2 n r show ?thesis by blast
qed

text \<open>
  Claim C7, amended. In a run over several files (the file loop of the upload handler, of
  \<^verbatim>\<open>syncAllUsersFromFiles\<close> and of \<^verbatim>\<open>loadDemoData\<close>) every file adds the rows of its own
  \<open>imported\<close> records, whatever happened to the files before it: nothing for a file that
  cannot be parsed, and for a file with a statement that throws the batches stored before
  that statement, the remaining batches being dropped. The counter grows by the number of
  rows added. An upload with a list of files whose user was found or created answers with
  success and with \<^verbatim>\<open>recordsImported\<close> equal to the number of rows the request added, the
  batches a failing file stored before its error included. A turn of the bulk sync for a
  user without history adds the rows of the user's files in the same way.
\<close>

theorem file_errors_isolated:
  "import_files db userId files t =
     (db\<lparr>streaming_history := streaming_history db @
          map (stored_row userId) (concat (map (imported (users db) userId) files))\<rparr>,
      t + length (concat (map (imported (users db) userId) files))) \<and>
   (upload_resolve_user db (upload_username body_username uuid) = (Inr userId, db1) \<longrightarrow>
      upload db body_username uuid (Some files) =
        (Inr \<lparr>ur_userId = userId,
              ur_recordsImported = length (concat (map (imported (users db1) userId) files))\<rparr>,
         db1\<lparr>streaming_history := streaming_history db1 @
              map (stored_row userId) (concat (map (imported (users db1) userId) files))\<rparr>)) \<and>
   (sync_resolve_user db (fst entry) = (Inr syncId, db2) \<and> count_history db2 syncId = 0 \<longrightarrow>
      sync_user db entry =
        db2\<lparr>streaming_history := streaming_history db2 @
             map (stored_row syncId) (concat (map (imported (users db2) syncId) (snd entry)))\<rparr>)"
  using upload_resolved[of db body_username uuid userId db1 files]
    sync_user_resolved[of db entry syncId db2]
  by (simp add: import_files_eq)

theorem file_errors_isolated_witness:
  "upload initDb (Some ''Nova'') []
     (Some [None, Some [song ''A'' 1000], Some [song ''X'' 3000000000], Some [song ''B'' 2000]]) =
     (Inr \<lparr>ur_userId = 1, ur_recordsImported = 2\<rparr>,
      nova_db\<lparr>streaming_history := [stored_row 1 (song ''A'' 1000), stored_row 1 (song ''B'' 2000)]\<rparr>)"
proof -
  have i: "concat (map (imported (users nova_db) 1)
      [None, Some [song ''A'' 1000], Some [song ''X'' 3000000000], Some [song ''B'' 2000]]) =
      [song ''A'' 1000, song ''B'' 2000]"
    by (simp add: chunk_eval)
  have h: "streaming_history nova_db = []"
    by (simp add: nova_db_def initDb_def)
  from file_errors_isolated[of initDb 1
      "[None, Some [song ''A'' 1000], Some [song ''X'' 3000000000], Some [song ''B'' 2000]]" 0
      "Some ''Nova''" "[]" nova_db, THEN conjunct2, THEN conjunct1, unfolded i] resolve_nova
  show ?thesis by (simp add: h)
qed

section \<open>C10: the user of an upload\<close>

lemma insert_user_Inr:
  "insert_user db username avatar = (Inr userId, db1) \<Longrightarrow>
     user_exists (users db1) userId \<and> streaming_history db1 = streaming_history db"
  by (auto simp: insert_user_def user_exists_def split: if_splits)

lemma insert_user_Inl:
  "insert_user db username avatar = (Inl e, db1) \<Longrightarrow>
     users db1 = users db \<and> streaming_history db1 = streaming_history db"
  by (auto simp: insert_user_def split: if_splits)

lemma upload_resolve_user_Inr:
  assumes "upload_resolve_user db username = (Inr userId, db1)"
  shows "user_exists (users db1) userId"
proof (cases "filter (\<lambda>u. u_username u = username) (users db)")
  case Nil
  with assms show ?thesis
    by (simp add: upload_resolve_user_def insert_user_Inr split: if_splits)
next
  case (Cons u rest)
  then have "u \<in> set (filter (\<lambda>u. u_username u = username) (users db))"
    by simp
  then have "u \<in> set (users db)"
    by simp
  with assms Cons show ?thesis
    by (auto simp: upload_resolve_user_def user_exists_def list_ex_iff split: if_splits)
qed

lemma upload_resolve_user_Inl:
  assumes "upload_resolve_user db username = (Inl e, db1)"
  shows "users db1 = users db \<and> streaming_history db1 = streaming_history db"
proof (cases "text_ok username")
  case False
  with assms show ?thesis by (simp add: upload_resolve_user_def)
next
  case True
  show ?thesis
  proof (cases "filter (\<lambda>u. u_username u = username) (users db)")
    case Nil
    with assms True show ?thesis
      by (simp add: upload_resolve_user_def insert_user_Inl)
  next
    case (Cons u rest)
    with assms True show ?thesis
      by (simp add: upload_resolve_user_def)
  qed
qed

text \<open>
  Claim C10 says that every upload request gets its user row and a success answer. The
  insert of the user can throw, and then the handler answers with status 500 before it
  reads a file: the name in the first request below has 256 characters and does not fit
  \<^verbatim>\<open>VARCHAR(255)\<close>, so no user is found or created. The second request is not a
  multipart one, so that \<^verbatim>\<open>req.files\<close> is undefined: the user Nova is created, the loop
  over the files throws outside the \<^verbatim>\<open>try\<close> of a file, and the answer is status 500.
\<close>

theorem upload_without_user:
  "upload initDb (Some (replicate 256 (CHR ''a''))) [] (Some [None]) = (Inl ServerError, initDb) \<and>
   upload initDb (Some ''Nova'') [] None = (Inl ServerError, nova_db)"
  by (simp add: upload_def upload_username_def upload_resolve_user_def insert_user_def initDb_def
      nova_db_def varchar_ok_def text_ok_def user_exists_def)

text \<open>
  Claim C10, amended. For every upload request with a list of files whose lookup and insert
  of the user do not throw, the user row is found or created before any file is read:
  whatever the files are, the answer is success with the key of that user, the files leave
  the table \<^verbatim>\<open>users\<close> as it was after the user was resolved, and the row of that user
  is in it. When every file fails to parse or fails at its first insert,
  \<^verbatim>\<open>recordsImported\<close> is 0 and no history row is added. When the lookup or the insert of
  the user throws, the answer is status 500 whatever the files are: no file is read, and
  no user and no history row is added.
\<close>

theorem upload_user_persists:
  "(upload_resolve_user db (upload_username body_username uuid) = (Inr userId, db1) \<longrightarrow>
      (\<exists>n db'. upload db body_username uuid (Some files) =
           (Inr \<lparr>ur_userId = userId, ur_recordsImported = n\<rparr>, db') \<and>
         users db' = users db1 \<and> user_exists (users db') userId \<and>
         (list_all (\<lambda>f. imported (users db1) userId f = []) files \<longrightarrow>
            n = 0 \<and> streaming_history db' = streaming_history db1))) \<and>
   (upload_resolve_user db (upload_username body_username uuid) = (Inl e, db1) \<longrightarrow>
      upload db body_username uuid req_files = (Inl ServerError, db1) \<and>
      users db1 = users db \<and> streaming_history db1 = streaming_history db)"
proof (intro conjI impI)
  assume res: "upload_resolve_user db (upload_username body_username uuid) = (Inr userId, db1)"
  have "list_all (\<lambda>f. imported (users db1) userId f = []) files \<Longrightarrow>
      concat (map (imported (users db1) userId) files) = []"
    by (induction files) simp_all
  then show "\<exists>n db'. upload db body_username uuid (Some files) =
           (Inr \<lparr>ur_userId = userId, ur_recordsImported = n\<rparr>, db') \<and>
         users db' = users db1 \<and> user_exists (users db') userId \<and>
         (list_all (\<lambda>f. imported (users db1) userId f = []) files \<longrightarrow>
            n = 0 \<and> streaming_history db' = streaming_history db1)"
    using upload_resolved[OF res, of files] upload_resolve_user_Inr[OF res]
    by auto
next
  assume res: "upload_resolve_user db (upload_username body_username uuid) = (Inl e, db1)"
  then show "upload db body_username uuid req_files = (Inl ServerError, db1)"
    by (simp add: upload_def)
  from upload_resolve_user_Inl[OF res]
  show "users db1 = users db" and "streaming_history db1 = streaming_history db"
    by simp_all
qed

theorem upload_user_persists_witness:
  "fst (upload initDb (Some ''Nova'') [] (Some [None, Some [song ''X'' 3000000000]])) =
     Inr \<lparr>ur_userId = 1, ur_recordsImported = 0\<rparr> \<and>
   users (snd (upload initDb (Some ''Nova'') [] (Some [None, Some [song ''X'' 3000000000]]))) =
     [\<lparr>u_id = 1, u_username = ''Nova'', u_avatar = ''goat''\<rparr>] \<and>
   upload initDb (Some (replicate 256 (CHR ''a''))) [] (Some [Some [song ''A'' 1000]]) =
     (Inl ServerError, initDb)"
proof -
  have i: "list_all (\<lambda>f. imported (users nova_db) 1 f = []) [None, Some [song ''X'' 3000000000]]"
    by (simp add: chunk_eval)
  from upload_user_persists[of initDb "Some ''Nova''" "[]" 1 nova_db
      "[None, Some [song ''X'' 3000000000]]", THEN conjunct1] resolve_nova i
  obtain n db' where
    "upload initDb (Some ''Nova'') [] (Some [None, Some [song ''X'' 3000000000]]) =
       (Inr \<lparr>ur_userId = 1, ur_recordsImported = n\<rparr>, db')"
    "users db' = users nova_db" "n = 0"
    by blast
  then have a: "fst (upload initDb (Some ''Nova'') [] (Some [None, Some [song ''X'' 3000000000]])) =
      Inr \<lparr>ur_userId = 1, ur_recordsImported = 0\<rparr> \<and>
    users (snd (upload initDb (Some ''Nova'') [] (Some [None, Some [song ''X'' 3000000000]]))) =
      [\<lparr>u_id = 1, u_username = ''Nova'', u_avatar = ''goat''\<rparr>]"
    by (simp add: nova_db_def initDb_def)
  have r: "upload_resolve_user initDb (upload_username (Some (replicate 256 (CHR ''a''))) []) =
      (Inl QueryError, initDb)"
    by (simp add: upload_resolve_user_def upload_username_def insert_user_def initDb_def
        varchar_ok_def text_ok_def)
  from upload_user_persists[where db = initDb and body_username = "Some (replicate 256 (CHR ''a''))"
      and uuid = "[]" and e = QueryError and ?db1.0 = initDb
      and req_files = "Some [Some [song ''A'' 1000]]", THEN conjunct2] r
  have "upload initDb (Some (replicate 256 (CHR ''a''))) [] (Some [Some [song ''A'' 1000]]) =
      (Inl ServerError, initDb)"
    by simp
  with a show ?thesis by simp
qed

section \<open>C6: the lookup of the user\<close>

text \<open>
  Claim C6 says that the user resolver finds an existing user whose name differs from the
  given one in letter case only, and creates no user then. The lookup of
  \<^verbatim>\<open>syncAllUsersFromFiles\<close> does so (it compares with \<^verbatim>\<open>ILIKE\<close>, as signup, login and
  the profile do), the lookup of the upload handler compares with \<^verbatim>\<open>=\<close>: with the user
  Nova in the database, an upload for the name nova creates a second user with the key 2,
  where the lookup of the sync finds the user with the key 1. The lookup of the sync takes
  the name as a pattern, though: for the name \<^verbatim>\<open>n%\<close> it finds Nova as well and creates
  no user.
\<close>

theorem upload_lookup_is_case_sensitive:
  "upload nova_db (Some ''nova'') [] (Some []) =
     (Inr \<lparr>ur_userId = 2, ur_recordsImported = 0\<rparr>,
      nova_db\<lparr>users := [\<lparr>u_id = 1, u_username = ''Nova'', u_avatar = ''goat''\<rparr>,
                         \<lparr>u_id = 2, u_username = ''nova'', u_avatar = ''goat''\<rparr>],
              users_id_seq := 2\<rparr>) \<and>
   sync_resolve_user nova_db ''nova'' = (Inr 1, nova_db) \<and>
   sync_resolve_user nova_db ''n%'' = (Inr 1, nova_db)"
  by (simp add: upload_def upload_username_def upload_resolve_user_def insert_user_def initDb_def
      varchar_ok_def text_ok_def user_exists_def nova_db_def sync_resolve_user_def
      select_users_ilike_def ilike_def)


section \<open>C8: the upload for Nova\<close>

lemma stored_row_user: "sh_user_id (stored_row userId r) = userId"
  by (simp add: stored_row_def)

lemma count_history_0:
  "count_history db userId = 0 \<Longrightarrow> filter (\<lambda>r. sh_user_id r = userId) (streaming_history db) = []"
  by (simp add: count_history_def)

lemma chunks_short:
  "xs \<noteq> [] \<Longrightarrow> length xs \<le> BATCH_SIZE \<Longrightarrow> chunks BATCH_SIZE xs = [xs]"
  by (simp add: chunks_step chunks_Nil BATCH_SIZE_def)

lemma select_Nova:
  assumes "list_all (\<lambda>u. \<not> equal_ignoring_case (u_username u) ''Nova'') us"
    and "users d = us @ [u]" and "u_username u = ''Nova''"
  shows "select_users_ilike d ''Nova'' = Inr [u]"
proof -
  have "filter (\<lambda>u. ilike ''Nova'' (u_username u) = LIKE_TRUE) us = []"
    using assms(1) by (simp add: filter_empty_conv list_all_iff ilike_plain[OF plain_Nova])
  moreover have "ilike ''Nova'' ''Nova'' = LIKE_TRUE"
    by (simp add: ilike_plain[OF plain_Nova] equal_ignoring_case_def)
  ultimately show ?thesis
    using assms(2,3)
    by (simp add: select_users_ilike_def text_ok_def list_ex_iff ilike_plain[OF plain_Nova])
qed

lemma nova_scenario_aux:
  assumes new: "list_all (\<lambda>u. \<not> equal_ignoring_case (u_username u) ''Nova'') (users db)"
    and free: "\<not> user_exists (users db) (users_id_seq db + 1)"
    and nohist: "count_history db (users_id_seq db + 1) = 0"
    and a: "valid a" "row_ok a" "master_metadata_track_name a = Some na"
    and b: "valid b" "row_ok b" "master_metadata_track_name b = Some nb"
    and ms: "ms_played a = Some x" "ms_played b = Some y" "x + y = 3000"
    and names: "take 500 na \<noteq> take 500 nb"
    and fv: "filter valid data = [a, b]"
  shows "fst (upload db (Some ''Nova'') uuid (Some [Some data])) =
           Inr \<lparr>ur_userId = users_id_seq db + 1, ur_recordsImported = 2\<rparr> \<and>
         get_user (snd (upload db (Some ''Nova'') uuid (Some [Some data]))) (Some ''Nova'') =
           Inr \<lparr>pr_id = users_id_seq db + 1, pr_username = ''Nova'', pr_avatar = ''goat'',
                totalMinutes = 0, totalSongs = 2\<rparr>"
proof -
  let ?id = "users_id_seq db + 1"
  let ?u = "\<lparr>u_id = ?id, u_username = ''Nova'', u_avatar = ''goat''\<rparr>"
  let ?db1 = "db\<lparr>users := users db @ [?u], users_id_seq := ?id\<rparr>"
  let ?up = "upload db (Some ''Nova'') uuid (Some [Some data])"
  have noexact: "filter (\<lambda>u. u_username u = ''Nova'') (users db) = []"
    using new by (auto simp: filter_empty_conv list_all_iff equal_ignoring_case_def)
  then have noex: "\<not> list_ex (\<lambda>u. u_username u = ''Nova'') (users db)"
    by (simp add: filter_empty_conv list_ex_iff)
  have res: "upload_resolve_user db (upload_username (Some ''Nova'') uuid) = (Inr ?id, ?db1)"
    using noexact noex free
    by (simp add: upload_resolve_user_def upload_username_def insert_user_def varchar_ok_def
        text_ok_def)
  have ok: "batch_ok (users db @ [?u]) ?id [a, b]"
    using a b by (simp add: batch_ok_def user_exists_def)
  have imp: "imported (users db @ [?u]) ?id (Some data) = [a, b]"
    using ok fv chunks_short[of "[a, b]"]
    by (simp add: imported_def accepted_def validRecords_def BATCH_SIZE_def)
  note up = upload_resolved[OF res, of "[Some data]"]
  have isnan: "parseInt_isNaN ''Nova''"
    by (simp add: parseInt_isNaN_def strip_sign_def is_space_def is_digit_def)
  have "select_users_ilike (snd ?up) ''Nova'' = Inr [?u]"
    by (rule select_Nova[OF new]) (simp_all add: up)
  then have sel: "select_user (snd ?up) (Some ''Nova'') = Inr [?u]"
    using isnan by (simp add: select_user_def)
  have hist: "filter (\<lambda>r. sh_user_id r = ?id) (streaming_history (snd ?up)) =
      [stored_row ?id a, stored_row ?id b]"
    using count_history_0[OF nohist] by (simp add: up imp stored_row_user)
  have tm: "total_ms (snd ?up) ?id = 3000"
    unfolding total_ms_def hist using ms by (simp add: List.map_filter_def stored_row_def)
  have tsg: "total_songs (snd ?up) ?id = 2"
    unfolding total_songs_def hist using a b names by (simp add: List.map_filter_def stored_row_def)
  show ?thesis
    by (simp add: get_user_def sel tm tsg round_minutes_def) (simp add: up imp)
qed

text \<open>
  Claim C8 says that an upload of two valid entries with 1000 and 2000 milliseconds and
  one with 0 for the new user Nova imports two records, and that the profile of Nova then
  reports \<^verbatim>\<open>totalSongs = 2\<close>. Each of the five runs below is such an upload, and in each
  the answer or the profile is another one. \<^verbatim>\<open>totalSongs\<close> is
  \<^verbatim>\<open>COUNT(DISTINCT track_name)\<close>: when the two valid entries are plays of one track, the
  profile reports one song; and so it does when their names are the same in the first 500
  characters and differ in the blanks after them, which the column cuts off. A valid entry
  without \<^verbatim>\<open>ts\<close> makes the insert throw, and nothing is imported. When there is a user
  nova, the upload creates the user Nova beside it, and the profile fetched for Nova is
  that of nova, found first by \<^verbatim>\<open>ILIKE\<close>, with no songs. After \<^verbatim>\<open>ensureDemoUser\<close> on
  a fresh database the key drawn for Nova is taken, and the upload answers with status
  500.
\<close>

theorem nova_scenario_fails:
  "get_user (snd (upload initDb (Some ''Nova'') []
       (Some [Some [song ''A'' 1000, song ''A'' 2000, song ''B'' 0]]))) (Some ''Nova'') =
     Inr \<lparr>pr_id = 1, pr_username = ''Nova'', pr_avatar = ''goat'', totalMinutes = 0, totalSongs = 1\<rparr> \<and>
   get_user (snd (upload initDb (Some ''Nova'') []
       (Some [Some [song (replicate 500 (CHR ''a'')) 1000,
                    song (replicate 500 (CHR ''a'') @ '' '') 2000, song ''B'' 0]])))
       (Some ''Nova'') =
     Inr \<lparr>pr_id = 1, pr_username = ''Nova'', pr_avatar = ''goat'', totalMinutes = 0, totalSongs = 1\<rparr> \<and>
   fst (upload initDb (Some ''Nova'') []
       (Some [Some [(song ''A'' 1000)\<lparr>ts := None\<rparr>, song ''C'' 2000, song ''B'' 0]])) =
     Inr \<lparr>ur_userId = 1, ur_recordsImported = 0\<rparr> \<and>
   fst (upload lower_nova_db (Some ''Nova'') []
       (Some [Some [song ''A'' 1000, song ''C'' 2000, song ''B'' 0]])) =
     Inr \<lparr>ur_userId = 2, ur_recordsImported = 2\<rparr> \<and>
   get_user (snd (upload lower_nova_db (Some ''Nova'') []
       (Some [Some [song ''A'' 1000, song ''C'' 2000, song ''B'' 0]]))) (Some ''Nova'') =
     Inr \<lparr>pr_id = 1, pr_username = ''nova'', pr_avatar = ''goat'', totalMinutes = 0, totalSongs = 0\<rparr> \<and>
   fst (upload (ensureDemoUser initDb) (Some ''Nova'') []
       (Some [Some [song ''A'' 1000, song ''C'' 2000, song ''B'' 0]])) = Inl ServerError"
proof -
  note run = eval_defs upload_def upload_username_def upload_resolve_user_def insert_user_def
      get_user_def select_user_def select_users_ilike_def parseInt_isNaN_def strip_sign_def
      is_space_def is_digit_def ilike_def total_ms_def total_songs_def round_minutes_def
      List.map_filter_def lower_nova_db_def ensureDemoUser_def DEMO_USER_ID_def DEMO_USERNAME_def
  have a: "get_user (snd (upload initDb (Some ''Nova'') []
       (Some [Some [song ''A'' 1000, song ''A'' 2000, song ''B'' 0]]))) (Some ''Nova'') =
     Inr \<lparr>pr_id = 1, pr_username = ''Nova'', pr_avatar = ''goat'', totalMinutes = 0, totalSongs = 1\<rparr>"
    by (simp add: run)
  have b: "get_user (snd (upload initDb (Some ''Nova'') []
       (Some [Some [song (replicate 500 (CHR ''a'')) 1000,
                    song (replicate 500 (CHR ''a'') @ '' '') 2000, song ''B'' 0]])))
       (Some ''Nova'') =
     Inr \<lparr>pr_id = 1, pr_username = ''Nova'', pr_avatar = ''goat'', totalMinutes = 0, totalSongs = 1\<rparr>"
    by (simp add: run list_all_iff)
  have c: "fst (upload initDb (Some ''Nova'') []
       (Some [Some [(song ''A'' 1000)\<lparr>ts := None\<rparr>, song ''C'' 2000, song ''B'' 0]])) =
     Inr \<lparr>ur_userId = 1, ur_recordsImported = 0\<rparr>"
    by (simp add: run)
  have d: "fst (upload lower_nova_db (Some ''Nova'') []
       (Some [Some [song ''A'' 1000, song ''C'' 2000, song ''B'' 0]])) =
     Inr \<lparr>ur_userId = 2, ur_recordsImported = 2\<rparr>"
    by (simp add: run)
  have e: "get_user (snd (upload lower_nova_db (Some ''Nova'') []
       (Some [Some [song ''A'' 1000, song ''C'' 2000, song ''B'' 0]]))) (Some ''Nova'') =
     Inr \<lparr>pr_id = 1, pr_username = ''nova'', pr_avatar = ''goat'', totalMinutes = 0, totalSongs = 0\<rparr>"
    by (simp add: run)
  have f: "fst (upload (ensureDemoUser initDb) (Some ''Nova'') []
       (Some [Some [song ''A'' 1000, song ''C'' 2000, song ''B'' 0]])) = Inl ServerError"
    by (simp add: run)
  from a b c d e f show ?thesis by blast
qed

text \<open>
  Claim C8, amended. Take a database in which no user has a name equal to Nova in any
  letter case, in which the next key of the user sequence is not the key of a user and no
  history row carries it. Upload for the name Nova, in a request with a list of files, one
  file with exactly three entries, in any order: two that the validator and the columns
  accept, with 1000 and 2000 milliseconds and with track names that differ in their first
  500 characters, and one with 0 milliseconds. Then the answer is success with
  \<^verbatim>\<open>recordsImported = 2\<close>, and the profile fetched for Nova afterwards reports
  \<^verbatim>\<open>totalSongs = 2\<close> and \<^verbatim>\<open>totalMinutes = 0\<close>, which is 3000/60000 rounded.
\<close>

theorem nova_scenario:
  assumes "list_all (\<lambda>u. \<not> equal_ignoring_case (u_username u) ''Nova'') (users db)"
    and "\<not> user_exists (users db) (users_id_seq db + 1)"
    and "count_history db (users_id_seq db + 1) = 0"
    and "ms_played e1 = Some 1000" "master_metadata_track_name e1 = Some n1" "n1 \<noteq> []" "row_ok e1"
    and "ms_played e2 = Some 2000" "master_metadata_track_name e2 = Some n2" "n2 \<noteq> []" "row_ok e2"
    and "ms_played e3 = Some 0"
    and "take 500 n1 \<noteq> take 500 n2"
    and "data \<in> {[e1, e2, e3], [e1, e3, e2], [e2, e1, e3], [e2, e3, e1], [e3, e1, e2], [e3, e2, e1]}"
  shows "fst (upload db (Some ''Nova'') uuid (Some [Some data])) =
           Inr \<lparr>ur_userId = users_id_seq db + 1, ur_recordsImported = 2\<rparr> \<and>
         get_user (snd (upload db (Some ''Nova'') uuid (Some [Some data]))) (Some ''Nova'') =
           Inr \<lparr>pr_id = users_id_seq db + 1, pr_username = ''Nova'', pr_avatar = ''goat'',
                totalMinutes = 0, totalSongs = 2\<rparr>"
proof -
  have v1: "valid e1" and v2: "valid e2" and v3: "\<not> valid e3"
    using assms by (simp_all add: valid_def)
  have "filter valid data = [e1, e2] \<or> filter valid data = [e2, e1]"
    using assms(14) v1 v2 v3 by (elim insertE emptyE) simp_all
  then consider "filter valid data = [e1, e2]" | "filter valid data = [e2, e1]"
    by blast
  then show ?thesis
  proof cases
    case 1
    show ?thesis
      by (rule nova_scenario_aux[OF assms(1-3) v1 assms(7) assms(5) v2 assms(11) assms(9)
            assms(4) assms(8) _ assms(13) 1]) simp
  next
    case 2
    show ?thesis
      by (rule nova_scenario_aux[OF assms(1-3) v2 assms(11) assms(9) v1 assms(7) assms(5)
            assms(8) assms(4) _ assms(13)[symmetric] 2]) simp
  qed
qed

theorem nova_scenario_witness:
  "fst (upload initDb (Some ''Nova'') [] (Some [Some [song ''A'' 1000, song ''C'' 2000, song ''B'' 0]])) =
     Inr \<lparr>ur_userId = 1, ur_recordsImported = 2\<rparr> \<and>
   get_user (snd (upload initDb (Some ''Nova'') []
       (Some [Some [song ''A'' 1000, song ''C'' 2000, song ''B'' 0]]))) (Some ''Nova'') =
     Inr \<lparr>pr_id = 1, pr_username = ''Nova'', pr_avatar = ''goat'', totalMinutes = 0, totalSongs = 2\<rparr>"
  using nova_scenario[of initDb "song ''A'' 1000" "''A''" "song ''C'' 2000" "''C''" "song ''B'' 0"
      "[song ''A'' 1000, song ''C'' 2000, song ''B'' 0]" "[]"]
  by (simp add: initDb_def user_exists_def count_history_def song_def row_ok_def
      varchar_null_ok_def varchar_ok_def text_ok_def integer_null_ok_def)

section \<open>C9: what \<^verbatim>\<open>totalSongs\<close> counts\<close>

lemma get_user_Inr:
  assumes "get_user db param = Inr p"
  obtains user rest where "select_user db param = Inr (user # rest)"
    and "pr_id p = u_id user" and "totalSongs p = total_songs db (u_id user)"
proof (cases "select_user db param")
  case (Inl e)
  with assms show ?thesis by (simp add: get_user_def)
next
  case (Inr us)
  with assms that show ?thesis
    by (cases us) (auto simp: get_user_def)
qed

lemma select_user_history:
  "select_user (db\<lparr>streaming_history := h\<rparr>) param = select_user db param"
  by (simp add: select_user_def select_users_ilike_def split: option.splits)

lemma set_map_filter_conv:
  "set (List.map_filter f xs) = {y. \<exists>x \<in> set xs. f x = Some y}"
  by (induction xs) (auto split: option.splits)

lemma total_songs_card:
  "total_songs db userId =
     card {t. \<exists>r \<in> set (streaming_history db). sh_user_id r = userId \<and> sh_track_name r = Some t}"
proof -
  have "set (List.map_filter sh_track_name
          (filter (\<lambda>r. sh_user_id r = userId) (streaming_history db))) =
        {t. \<exists>r \<in> set (streaming_history db). sh_user_id r = userId \<and> sh_track_name r = Some t}"
    by (auto simp: set_map_filter_conv)
  then show ?thesis
    by (simp add: total_songs_def length_remdups_card_conv)
qed

text \<open>
  Claim C9. In every profile answer \<^verbatim>\<open>totalSongs\<close> is the number of distinct track names
  among the history rows of the user, not the number of the rows: one more play of a track
  name the user already has leaves \<^verbatim>\<open>totalSongs\<close> as it is, while the user has one row
  more.
\<close>

theorem total_songs_distinct_names:
  assumes "get_user db param = Inr p"
  shows "totalSongs p =
           card {t. \<exists>r \<in> set (streaming_history db). sh_user_id r = pr_id p \<and> sh_track_name r = Some t} \<and>
         (\<forall>r t. sh_user_id r = pr_id p \<and> sh_track_name r = Some t \<and>
                (\<exists>r' \<in> set (streaming_history db). sh_user_id r' = pr_id p \<and> sh_track_name r' = Some t) \<longrightarrow>
            (\<exists>p'. get_user (db\<lparr>streaming_history := streaming_history db @ [r]\<rparr>) param = Inr p' \<and>
                  totalSongs p' = totalSongs p \<and>
                  count_history (db\<lparr>streaming_history := streaming_history db @ [r]\<rparr>) (pr_id p) =
                    count_history db (pr_id p) + 1))"
proof -
  from assms obtain user rest where sel: "select_user db param = Inr (user # rest)"
    and pid: "pr_id p = u_id user" and ts: "totalSongs p = total_songs db (u_id user)"
    by (rule get_user_Inr)
  have first: "totalSongs p =
      card {t. \<exists>r \<in> set (streaming_history db). sh_user_id r = pr_id p \<and> sh_track_name r = Some t}"
    by (simp add: ts pid total_songs_card)
  have second: "\<exists>p'. get_user (db\<lparr>streaming_history := streaming_history db @ [r]\<rparr>) param = Inr p' \<and>
                  totalSongs p' = totalSongs p \<and>
                  count_history (db\<lparr>streaming_history := streaming_history db @ [r]\<rparr>) (pr_id p) =
                    count_history db (pr_id p) + 1"
    if r: "sh_user_id r = pr_id p" "sh_track_name r = Some t"
      and old: "\<exists>r' \<in> set (streaming_history db). sh_user_id r' = pr_id p \<and> sh_track_name r' = Some t"
    for r t
  proof -
    let ?db' = "db\<lparr>streaming_history := streaming_history db @ [r]\<rparr>"
    have "{t'. \<exists>r' \<in> set (streaming_history ?db'). sh_user_id r' = u_id user \<and> sh_track_name r' = Some t'} =
          {t'. \<exists>r' \<in> set (streaming_history db). sh_user_id r' = u_id user \<and> sh_track_name r' = Some t'}"
      using r old pid by auto
    then have "total_songs ?db' (u_id user) = total_songs db (u_id user)"
      by (simp only: total_songs_card)
    moreover have "count_history ?db' (pr_id p) = count_history db (pr_id p) + 1"
      using r by (simp add: count_history_def)
    ultimately show ?thesis
      using sel ts by (simp add: get_user_def select_user_history)
  qed
  from first second show ?thesis by blast
qed

theorem total_songs_distinct_names_witness:
  "get_user two_plays_db (Some ''Nova'') =
     Inr \<lparr>pr_id = 1, pr_username = ''Nova'', pr_avatar = ''goat'', totalMinutes = 0, totalSongs = 1\<rparr> \<and>
   get_user (two_plays_db\<lparr>streaming_history :=
       streaming_history two_plays_db @ [stored_row 1 (song ''A'' 2000)]\<rparr>) (Some ''Nova'') =
     Inr \<lparr>pr_id = 1, pr_username = ''Nova'', pr_avatar = ''goat'', totalMinutes = 0, totalSongs = 1\<rparr> \<and>
   count_history (two_plays_db\<lparr>streaming_history :=
       streaming_history two_plays_db @ [stored_row 1 (song ''A'' 2000)]\<rparr>) 1 = 2"
proof -
  have g: "get_user two_plays_db (Some ''Nova'') =
     Inr \<lparr>pr_id = 1, pr_username = ''Nova'', pr_avatar = ''goat'', totalMinutes = 0, totalSongs = 1\<rparr>"
    by (simp add: two_plays_db_def nova_db_def initDb_def get_user_def select_user_def
        select_users_ilike_def text_ok_def parseInt_isNaN_def strip_sign_def is_space_def
        is_digit_def ilike_def total_ms_def total_songs_def round_minutes_def List.map_filter_def
        stored_row_def song_def)
  have c: "count_history two_plays_db 1 = 1"
    by (simp add: two_plays_db_def count_history_def stored_row_user)
  have old: "\<exists>r' \<in> set (streaming_history two_plays_db). sh_user_id r' = 1 \<and> sh_track_name r' = Some ''A''"
    by (simp add: two_plays_db_def stored_row_def song_def)
  have new: "sh_user_id (stored_row 1 (song ''A'' 2000)) = 1 \<and>
      sh_track_name (stored_row 1 (song ''A'' 2000)) = Some ''A''"
    by (simp add: stored_row_def song_def)
  from total_songs_distinct_names[OF g, THEN conjunct2, rule_format,
      of "stored_row 1 (song ''A'' 2000)" "''A''"] old new
  have "\<exists>p'. get_user (two_plays_db\<lparr>streaming_history :=
         streaming_history two_plays_db @ [stored_row 1 (song ''A'' 2000)]\<rparr>) (Some ''Nova'') = Inr p' \<and>
       totalSongs p' = 1 \<and>
       count_history (two_plays_db\<lparr>streaming_history :=
         streaming_history two_plays_db @ [stored_row 1 (song ''A'' 2000)]\<rparr>) 1 =
       count_history two_plays_db 1 + 1"
    by simp
  then have cnt: "count_history (two_plays_db\<lparr>streaming_history :=
       streaming_history two_plays_db @ [stored_row 1 (song ''A'' 2000)]\<rparr>) 1 = 2"
    using c by auto
  have g2: "get_user (two_plays_db\<lparr>streaming_history :=
       streaming_history two_plays_db @ [stored_row 1 (song ''A'' 2000)]\<rparr>) (Some ''Nova'') =
     Inr \<lparr>pr_id = 1, pr_username = ''Nova'', pr_avatar = ''goat'', totalMinutes = 0, totalSongs = 1\<rparr>"
    by (simp add: two_plays_db_def nova_db_def initDb_def get_user_def select_user_def
        select_users_ilike_def text_ok_def parseInt_isNaN_def strip_sign_def is_space_def
        is_digit_def ilike_def total_ms_def total_songs_def round_minutes_def List.map_filter_def
        stored_row_def song_def)
  from g g2 cnt show ?thesis by simp
qed


section \<open>C5: the bulk sync skips users with history\<close>

lemma import_files_rows:
  "filter (\<lambda>r. sh_user_id r = u) (streaming_history (fst (import_files db userId files t))) =
     filter (\<lambda>r. sh_user_id r = u) (streaming_history db) @
     (if u = userId then map (stored_row userId) (concat (map (imported (users db) userId) files)) else [])"
  by (simp add: import_files_eq filter_map comp_def stored_row_user)

lemma insert_user_history:
  "streaming_history (snd (insert_user db username avatar)) = streaming_history db"
  by (simp add: insert_user_def)

lemma sync_resolve_user_history:
  "streaming_history (snd (sync_resolve_user db username)) = streaming_history db"
  by (simp add: sync_resolve_user_def insert_user_history split: sum.splits list.splits)

lemma sync_user_keeps:
  assumes "0 < count_history db u"
  shows "filter (\<lambda>r. sh_user_id r = u) (streaming_history (sync_user db entry)) =
         filter (\<lambda>r. sh_user_id r = u) (streaming_history db)"
proof (cases "sync_resolve_user db (fst entry)")
  case (Pair res db1)
  have h: "streaming_history db1 = streaming_history db"
    using sync_resolve_user_history[of db "fst entry"] Pair by simp
  show ?thesis
  proof (cases res)
    case (Inl e)
    with Pair h show ?thesis by (simp add: sync_user_def)
  next
    case (Inr userId)
    show ?thesis
    proof (cases "0 < count_history db1 userId")
      case True
      with Pair Inr h show ?thesis by (simp add: sync_user_def)
    next
      case False
      with assms h have "u \<noteq> userId"
        by (auto simp: count_history_def)
      with Pair Inr False h show ?thesis
        by (simp add: sync_user_def import_files_rows)
    qed
  qed
qed

text \<open>
  Claim C5. When a user has at least one history row, a run of the bulk sync, over whatever
  files and names, leaves the history rows of that user exactly as they are: the guard is
  on the user, not on the file or the record. The same holds of \<^verbatim>\<open>loadDemoData\<close> and the
  demo user, which then changes nothing at all. So a second run adds nothing for a user the
  first run gave a row.
\<close>

theorem sync_skips_users_with_history:
  "(0 < count_history db userId \<longrightarrow>
      filter (\<lambda>r. sh_user_id r = userId) (streaming_history (syncAllUsersFromFiles db userFilesMap)) =
      filter (\<lambda>r. sh_user_id r = userId) (streaming_history db)) \<and>
   (0 < count_history db DEMO_USER_ID \<longrightarrow> loadDemoData db files = db)"
proof (intro conjI impI)
  assume "0 < count_history db userId"
  then show "filter (\<lambda>r. sh_user_id r = userId)
        (streaming_history (syncAllUsersFromFiles db userFilesMap)) =
      filter (\<lambda>r. sh_user_id r = userId) (streaming_history db)"
    unfolding syncAllUsersFromFiles_def
  proof (induction userFilesMap arbitrary: db)
    case Nil
    then show ?case by simp
  next
    case (Cons entry m)
    have k: "filter (\<lambda>r. sh_user_id r = userId) (streaming_history (sync_user db entry)) =
        filter (\<lambda>r. sh_user_id r = userId) (streaming_history db)"
      by (rule sync_user_keeps[OF Cons.prems])
    then have "0 < count_history (sync_user db entry) userId"
      using Cons.prems by (simp add: count_history_def)
    from Cons.IH[OF this] k show ?case by simp
  qed
next
  assume "0 < count_history db DEMO_USER_ID"
  then show "loadDemoData db files = db"
    by (simp add: loadDemoData_def)
qed

theorem sync_skips_users_with_history_witness:
  "count_history (syncAllUsersFromFiles initDb [(''Nova'', [Some [song ''A'' 1000]])]) 1 = 1 \<and>
   filter (\<lambda>r. sh_user_id r = 1)
     (streaming_history
       (syncAllUsersFromFiles (syncAllUsersFromFiles initDb [(''Nova'', [Some [song ''A'' 1000]])])
          [(''nova'', [Some [song ''A'' 1000], Some [song ''B'' 2000]])])) =
     [stored_row 1 (song ''A'' 1000)]"
proof -
  have s: "syncAllUsersFromFiles initDb [(''Nova'', [Some [song ''A'' 1000]])] =
      nova_db\<lparr>streaming_history := [stored_row 1 (song ''A'' 1000)]\<rparr>"
    by (simp add: syncAllUsersFromFiles_def sync_user_def sync_resolve_user_def
        select_users_ilike_def insert_user_def count_history_def eval_defs)
  have c: "count_history (nova_db\<lparr>streaming_history := [stored_row 1 (song ''A'' 1000)]\<rparr>) 1 = 1"
    by (simp add: count_history_def stored_row_user)
  from sync_skips_users_with_history[of "nova_db\<lparr>streaming_history := [stored_row 1 (song ''A'' 1000)]\<rparr>" 1
      "[(''nova'', [Some [song ''A'' 1000], Some [song ''B'' 2000]])]"] c
  show ?thesis by (simp add: s stored_row_user)
qed

section \<open>C3: the like count\<close>

lemma insert_user_social: "social (snd (insert_user db username avatar)) = social db"
  by (simp add: insert_user_def social_def)

lemma import_files_social: "social (fst (import_files db userId files t)) = social db"
  by (simp add: import_files_eq social_def)

lemma ensureDemoUser_social: "social (ensureDemoUser db) = social db"
  by (simp add: ensureDemoUser_def social_def)

lemma loadDemoData_social: "social (loadDemoData db files) = social db"
  by (simp add: loadDemoData_def import_files_social)

lemma upload_social: "social (snd (upload db body_username uuid files)) = social db"
proof -
  have r: "social (snd (upload_resolve_user db username)) = social db" for username
    by (simp add: upload_resolve_user_def insert_user_social split: list.splits)
  show ?thesis
    using r[of "upload_username body_username uuid"]
    by (cases "upload_resolve_user db (upload_username body_username uuid)")
      (auto simp: upload_def import_files_social split: sum.splits option.splits)
qed

lemma sync_user_social: "social (sync_user db entry) = social db"
proof -
  have r: "social (snd (sync_resolve_user db username)) = social db" for username
    by (simp add: sync_resolve_user_def insert_user_social split: sum.splits list.splits)
  show ?thesis
    using r[of "fst entry"]
    by (cases "sync_resolve_user db (fst entry)")
      (auto simp: sync_user_def import_files_social split: sum.splits)
qed

lemma sync_social: "social (syncAllUsersFromFiles db m) = social db"
  unfolding syncAllUsersFromFiles_def
  by (induction m arbitrary: db) (simp_all add: sync_user_social)

lemma post_comment_inv:
  assumes "likes_inv (comments db) (comment_likes db)"
  shows "likes_inv (comments (snd (post_comment db userId artistName content)))
           (comment_likes (snd (post_comment db userId artistName content)))"
proof (cases "\<exists>body. content = Some body \<and> user_exists (users db) userId \<and>
             comment_params_ok userId artistName content \<and>
             \<not> comment_exists (comments db) (comments_id_seq db + 1)")
  case False
  with assms show ?thesis
    by (auto simp: post_comment_def split: option.splits)
next
  case True
  then obtain body where c: "content = Some body" and ok: "user_exists (users db) userId"
    "comment_params_ok userId artistName content"
    and fresh: "\<not> comment_exists (comments db) (comments_id_seq db + 1)"
    by blast
  have none: "filter (\<lambda>l. l_comment_id l = comments_id_seq db + 1) (comment_likes db) = []"
    using assms fresh by (auto simp: likes_inv_def list_all_iff filter_empty_conv)
  show ?thesis
    using assms c ok fresh none
    by (auto simp: post_comment_def likes_inv_def list_all_iff comment_exists_def list_ex_iff)
qed

lemma comment_exists_conv: "comment_exists cs commentId = (commentId \<in> c_id ` set cs)"
  by (auto simp: comment_exists_def list_ex_iff)

lemma update_likes_ids: "c_id ` set (comments (update_likes db commentId)) = c_id ` set (comments db)"
proof -
  have "map c_id (comments (update_likes db commentId)) = map c_id (comments db)"
    by (simp add: update_likes_def comp_def if_distrib cong: if_cong)
  then show ?thesis by (metis set_map)
qed

lemma update_likes_inv:
  assumes "list_all (\<lambda>c. c_id c \<noteq> commentId \<longrightarrow>
              c_likes c = int (length (filter (\<lambda>l. l_comment_id l = c_id c) (comment_likes db))))
            (comments db)"
    and "list_all (\<lambda>l. comment_exists (comments db) (l_comment_id l)) (comment_likes db)"
  shows "likes_inv (comments (update_likes db commentId)) (comment_likes (update_likes db commentId))"
proof -
  have l: "comment_likes (update_likes db commentId) = comment_likes db"
    by (simp add: update_likes_def)
  have a: "list_all (\<lambda>c. c_likes c = int (length (filter (\<lambda>l. l_comment_id l = c_id c) (comment_likes db))))
      (comments (update_likes db commentId))"
    using assms(1) by (auto simp: update_likes_def list_all_iff count_likes_def)
  have b: "list_all (\<lambda>l. comment_exists (comments (update_likes db commentId)) (l_comment_id l))
      (comment_likes db)"
    using assms(2) by (simp add: comment_exists_conv update_likes_ids)
  from a b show ?thesis by (simp add: likes_inv_def l)
qed

lemma read_likes_snd: "snd (read_likes db commentId) = db"
  by (simp add: read_likes_def split: list.splits)

lemma like_comment_inv:
  assumes "likes_inv (comments db) (comment_likes db)"
  shows "likes_inv (comments (snd (like_comment db userId param)))
           (comment_likes (snd (like_comment db userId param)))"
proof (cases param)
  case None
  with assms show ?thesis by (simp add: like_comment_def)
next
  case (Some commentId)
  show ?thesis
  proof (cases "integer_null_ok (Some commentId)")
    case False
    with Some assms show ?thesis by (simp add: like_comment_def)
  next
    case range: True
    show ?thesis
    proof (cases "list_ex (\<lambda>l. l_comment_id l = commentId \<and> l_user_id l = userId) (comment_likes db)")
      case True
      have "likes_inv (comments (update_likes db commentId)) (comment_likes (update_likes db commentId))"
        using assms by (intro update_likes_inv) (auto simp: likes_inv_def list_all_iff)
      with Some range True show ?thesis by (simp add: like_comment_def read_likes_snd)
    next
      case False
      show ?thesis
      proof (cases "comment_exists (comments db) commentId \<and> user_exists (users db) userId")
        case no: False
        with Some range False assms show ?thesis by (auto simp: like_comment_def)
      next
        case True
        let ?db1 = "db\<lparr>comment_likes := comment_likes db @
                          [\<lparr>l_comment_id = commentId, l_user_id = userId\<rparr>]\<rparr>"
        have "likes_inv (comments (update_likes ?db1 commentId))
                (comment_likes (update_likes ?db1 commentId))"
          using assms True by (intro update_likes_inv) (auto simp: likes_inv_def list_all_iff)
        with Some range False True show ?thesis by (simp add: like_comment_def read_likes_snd)
      qed
    qed
  qed
qed

lemma reachable_likes_inv: "reachable db \<Longrightarrow> likes_inv (comments db) (comment_likes db)"
proof (induction rule: reachable.induct)
  case started
  then show ?case by (simp add: initDb_def likes_inv_def)
next
  case (ensured db)
  then show ?case using ensureDemoUser_social[of db] by (simp add: social_def)
next
  case (loaded db files)
  then show ?case using loadDemoData_social[of db files] by (simp add: social_def)
next
  case (synced db userFilesMap)
  then show ?case using sync_social[of db userFilesMap] by (simp add: social_def)
next
  case (uploaded db body_username uuid files)
  then show ?case using upload_social[of db body_username uuid files] by (simp add: social_def)
next
  case (commented db userId artistName content)
  show ?case using commented.IH by (rule post_comment_inv)
next
  case (liked db userId param)
  show ?case using liked.IH by (rule like_comment_inv)
next
  case (other db us n h)
  then show ?case by simp
qed

lemma update_likes_comment_likes:
  "comment_likes (update_likes db commentId) = comment_likes db"
  by (simp add: update_likes_def)

lemma update_likes_users: "users (update_likes db commentId) = users db"
  by (simp add: update_likes_def)

lemma update_likes_idem: "update_likes (update_likes db commentId) commentId = update_likes db commentId"
  by (simp add: update_likes_def count_likes_def comp_def cong: if_cong)

lemma comment_exists_update:
  "comment_exists (comments (update_likes db commentId)) c = comment_exists (comments db) c"
  by (simp add: comment_exists_conv update_likes_ids)

lemmas like_simps = read_likes_snd update_likes_comment_likes update_likes_users
  comment_exists_update

lemma like_comment_idem:
  "like_comment (snd (like_comment db userId param)) userId param = like_comment db userId param"
proof (cases param)
  case None
  then show ?thesis by (simp add: like_comment_def)
next
  case (Some commentId)
  show ?thesis
  proof (cases "integer_null_ok (Some commentId)")
    case False
    with Some show ?thesis by (simp add: like_comment_def)
  next
    case range: True
    show ?thesis
    proof (cases "list_ex (\<lambda>l. l_comment_id l = commentId \<and> l_user_id l = userId) (comment_likes db)")
      case True
      with Some range show ?thesis
        by (simp add: like_comment_def update_likes_idem like_simps)
    next
      case False
      show ?thesis
      proof (cases "comment_exists (comments db) commentId \<and> user_exists (users db) userId")
        case no: False
        with Some range False show ?thesis by (auto simp: like_comment_def)
      next
        case True
        with Some range False show ?thesis
          by (simp add: like_comment_def update_likes_idem like_simps)
      qed
    qed
  qed
qed

lemma like_comment_Inr:
  assumes "fst (like_comment db userId param) = Inr n"
  shows "\<exists>commentId c rest. param = Some commentId \<and>
           filter (\<lambda>c. c_id c = commentId) (comments (snd (like_comment db userId param))) = c # rest \<and>
           n = c_likes c"
proof -
  have r: "fst (read_likes d commentId) = Inr n \<Longrightarrow>
      \<exists>c rest. filter (\<lambda>c. c_id c = commentId) (comments d) = c # rest \<and> n = c_likes c" for d commentId
    by (auto simp: read_likes_def split: list.splits)
  from assms show ?thesis
    by (auto simp: like_comment_def read_likes_snd split: option.splits if_splits dest!: r)
qed

lemma reachable_nova_db: "reachable nova_db"
proof -
  have "snd (upload initDb (Some ''Nova'') [] (Some [])) = nova_db"
    by (simp add: upload_def upload_username_def upload_resolve_user_def insert_user_def
        initDb_def nova_db_def varchar_ok_def text_ok_def user_exists_def)
  with reachable.uploaded[OF reachable.started, of "Some ''Nova''" "[]" "Some []"]
  show ?thesis by simp
qed

text \<open>
  Claim C3. In every state the server reaches, after a like action (whether it succeeds or
  answers with an error) the stored like count of every comment, so also of the comment
  that was liked, is the number of like rows for it; a count that the action answers is that
  number; and a second like of the same comment by the same user gives the same answer and
  leaves the database, so also the count, as the first like left it.
\<close>

theorem like_count_equals_rows:
  assumes "reachable db"
  shows "list_all (\<lambda>c. c_likes c = count_likes (snd (like_comment db userId param)) (c_id c))
           (comments (snd (like_comment db userId param))) \<and>
         (\<forall>n. fst (like_comment db userId param) = Inr n \<longrightarrow>
            (\<exists>commentId. param = Some commentId \<and>
               n = count_likes (snd (like_comment db userId param)) commentId)) \<and>
         like_comment (snd (like_comment db userId param)) userId param =
           like_comment db userId param"
proof -
  let ?db' = "snd (like_comment db userId param)"
  have "reachable ?db'"
    using assms by (rule reachable.liked)
  then have inv: "likes_inv (comments ?db') (comment_likes ?db')"
    by (rule reachable_likes_inv)
  then have a: "list_all (\<lambda>c. c_likes c = count_likes ?db' (c_id c)) (comments ?db')"
    by (simp add: likes_inv_def count_likes_def)
  have b: "\<exists>commentId. param = Some commentId \<and> n = count_likes ?db' commentId"
    if "fst (like_comment db userId param) = Inr n" for n
  proof -
    from like_comment_Inr[OF that] obtain commentId c rest where
      p: "param = Some commentId" and
      f: "filter (\<lambda>c. c_id c = commentId) (comments ?db') = c # rest" and n: "n = c_likes c"
      by blast
    from f have "c \<in> set (filter (\<lambda>c. c_id c = commentId) (comments ?db'))" by simp
    then have "c \<in> set (comments ?db')" "c_id c = commentId" by simp_all
    with a have "c_likes c = count_likes ?db' commentId" by (auto simp: list_all_iff)
    with p n show ?thesis by simp
  qed
  from a b like_comment_idem[of db userId param] show ?thesis by blast
qed

theorem like_count_equals_rows_witness:
  "fst (like_comment commented_db 1 (Some 1)) = Inr 1 \<and>
   count_likes (snd (like_comment commented_db 1 (Some 1))) 1 = 1 \<and>
   fst (like_comment (snd (like_comment commented_db 1 (Some 1))) 1 (Some 1)) = Inr 1"
proof -
  have r: "reachable commented_db"
    unfolding commented_db_def by (rule reachable.commented[OF reachable_nova_db])
  have f: "fst (like_comment commented_db 1 (Some 1)) = Inr 1"
    by (simp add: commented_db_def post_comment_def comment_params_ok_def nova_db_def initDb_def
        user_exists_def varchar_ok_def text_ok_def comment_exists_def like_comment_def
        integer_null_ok_def read_likes_def update_likes_def count_likes_def)
  from like_count_equals_rows[OF r, of 1 "Some 1"] f
  have "count_likes (snd (like_comment commented_db 1 (Some 1))) 1 = 1"
    and "like_comment (snd (like_comment commented_db 1 (Some 1))) 1 (Some 1) =
         like_comment commented_db 1 (Some 1)"
    by auto
  with f show ?thesis by simp
qed


section \<open>C4: the order of the leaderboard\<close>

lemma filter_key_unique:
  "distinct (map f xs) \<Longrightarrow> x \<in> set xs \<Longrightarrow> filter (\<lambda>y. f y = f x) xs = [x]"
proof (induction xs)
  case Nil
  then show ?case by simp
next
  case (Cons a xs)
  show ?case
  proof (cases "a = x")
    case True
    with Cons.prems have "f x \<notin> f ` set xs" by simp
    then have "\<forall>y \<in> set xs. f y \<noteq> f x" by (metis image_eqI)
    then have "filter (\<lambda>y. f y = f x) xs = []"
      by (simp add: filter_empty_conv)
    with True show ?thesis by simp
  next
    case False
    with Cons.prems have "x \<in> set xs" "f a \<noteq> f x" by auto
    with Cons show ?thesis by simp
  qed
qed

lemma plays_of_user:
  assumes "distinct (map u_id (users db))" and "u \<in> set (users db)"
  shows "map fst (filter (\<lambda>p. snd p = u) (artist_plays db artistName)) =
         filter (\<lambda>r. sh_user_id r = u_id u \<and> artist_matches artistName r) (streaming_history db)"
proof -
  have one: "filter (\<lambda>x. u_id x = i \<and> x = u) (users db) = (if i = u_id u then [u] else [])" for i
  proof (cases "i = u_id u")
    case True
    have "filter (\<lambda>x. u_id x = u_id u \<and> x = u) (users db) =
        filter (\<lambda>x. x = u) (filter (\<lambda>x. u_id x = u_id u) (users db))"
      by (simp add: conj_commute)
    with True filter_key_unique[OF assms] show ?thesis by simp
  next
    case False
    then show ?thesis by (auto simp: filter_empty_conv)
  qed
  have j: "map fst (filter (\<lambda>p. snd p = u) (concat (map (\<lambda>r. map (Pair r) (filter (\<lambda>u'. u_id u' = sh_user_id r) (users db))) hs))) =
        filter (\<lambda>r. sh_user_id r = u_id u) hs" for hs
    by (induction hs) (simp_all add: filter_map comp_def one)
  show ?thesis
    unfolding artist_plays_def j by (simp add: conj_commute)
qed

lemma group_total:
  assumes "distinct (map u_id (users db))" and "u \<in> set (users db)"
  shows "lb_total_ms (leaderboard_group (artist_plays db artistName) u) =
           matched_total db artistName (u_id u)"
  using plays_of_user[OF assms, of artistName]
  by (simp add: leaderboard_group_def matched_total_def map_map[symmetric] del: map_map)

lemma plays_users: "snd ` set (artist_plays db artistName) \<subseteq> set (users db)"
  by (auto simp: artist_plays_def)

lemma sql_sum_Some: "sql_sum vs = Some d \<Longrightarrow> vs \<noteq> []"
  by (auto simp: sql_sum_def)

lemma user_in_plays:
  assumes "distinct (map u_id (users db))" and "u \<in> set (users db)"
    and "matched_total db artistName (u_id u) = Some d"
  shows "u \<in> snd ` set (artist_plays db artistName)"
proof -
  from assms(3) have "filter (\<lambda>r. sh_user_id r = u_id u \<and> artist_matches artistName r)
      (streaming_history db) \<noteq> []"
    by (auto simp: matched_total_def dest: sql_sum_Some)
  with plays_of_user[OF assms(1,2), of artistName]
  have "filter (\<lambda>p. snd p = u) (artist_plays db artistName) \<noteq> []"
    by auto
  then obtain p where "p \<in> set (artist_plays db artistName)" "snd p = u"
    by (auto simp: filter_empty_conv)
  then show ?thesis by force
qed

lemma groups_ids:
  "map lb_user_id (leaderboard_groups db artistName) =
     map u_id (remdups (map snd (artist_plays db artistName)))"
  by (simp add: leaderboard_groups_def leaderboard_group_def comp_def)

lemma distinct_groups_ids:
  assumes "distinct (map u_id (users db))"
  shows "distinct (map lb_user_id (leaderboard_groups db artistName))"
proof -
  have "inj_on u_id (set (users db))"
    using assms by (simp add: distinct_map)
  then have "inj_on u_id (set (remdups (map snd (artist_plays db artistName))))"
    using plays_users[of db artistName] by (auto intro: inj_on_subset)
  then show ?thesis
    by (simp add: groups_ids distinct_map)
qed

lemma length_leaderboard_json: "length (leaderboard_json cur rows) = length rows"
  by (simp add: leaderboard_json_def)

lemma leaderboard_json_nth:
  "j < length rows \<Longrightarrow>
     le_rank (leaderboard_json cur rows ! j) = j + 1 \<and>
     le_userId (leaderboard_json cur rows ! j) = lb_user_id (rows ! j)"
  by (simp add: leaderboard_json_def nth_enumerate_eq)

lemma group_of_user:
  assumes "distinct (map u_id (users db))" and "u \<in> set (users db)"
    and "matched_total db artistName (u_id u) = Some d"
  shows "leaderboard_group (artist_plays db artistName) u \<in> set (leaderboard_groups db artistName)"
    and "lb_total_ms (leaderboard_group (artist_plays db artistName) u) = Some d"
    and "lb_user_id (leaderboard_group (artist_plays db artistName) u) = u_id u"
proof -
  from user_in_plays[OF assms]
  show "leaderboard_group (artist_plays db artistName) u \<in> set (leaderboard_groups db artistName)"
    by (simp add: leaderboard_groups_def)
  show "lb_total_ms (leaderboard_group (artist_plays db artistName) u) = Some d"
    using group_total[OF assms(1,2), of artistName] assms(3) by simp
  show "lb_user_id (leaderboard_group (artist_plays db artistName) u) = u_id u"
    by (simp add: leaderboard_group_def)
qed

lemma group_is_user:
  assumes "distinct (map u_id (users db))" and "g \<in> set (leaderboard_groups db artistName)"
  shows "lb_total_ms g = matched_total db artistName (lb_user_id g)"
proof -
  from assms(2) obtain u where u: "u \<in> snd ` set (artist_plays db artistName)"
    and g: "g = leaderboard_group (artist_plays db artistName) u"
    by (auto simp: leaderboard_groups_def)
  from u plays_users[of db artistName] have "u \<in> set (users db)" by blast
  from group_total[OF assms(1) this, of artistName] g show ?thesis
    by (simp add: leaderboard_group_def)
qed

lemmas lb_eval = lb_db_def lb_rows_def initDb_def stored_row_def song_def artist_plays_def
  artist_matches_def artist_ilike_def ilike_def leaderboard_groups_def leaderboard_group_def
  sql_sum_def leaderboard_query_def leaderboard_throws_def text_ok_def order_by_limit_def
  desc_total_def summed_duration_def equal_ignoring_case_def user_exists_def
  leaderboard_json_def List.map_filter_def round_minutes_def

lemmas wild_eval = wild_db_def wild_rows_def play_def lb_eval

lemma matched_plain:
  assumes "plain artistName"
  shows "matched_total db artistName userId = summed_duration db artistName userId"
proof -
  have "artist_matches artistName r =
      (case sh_artist_name r of None \<Rightarrow> False | Some a \<Rightarrow> equal_ignoring_case a artistName)" for r
    by (simp add: artist_matches_def artist_ilike_def ilike_plain[OF assms] split: option.splits)
  then show ?thesis
    by (simp add: matched_total_def summed_duration_def)
qed

text \<open>
  Claim C4 says that of two users the one with the greater summed duration for the artist
  ranks above the other. The query takes the name of the artist as a pattern. For the name
  \<^verbatim>\<open>A_\<close> below, Nova has 5000 milliseconds for the artist \<^verbatim>\<open>A_\<close> and Vega has 3000;
  Vega has 10000 more for the artist \<^verbatim>\<open>AB\<close>, which the pattern matches as well, and the
  leaderboard ranks Vega first, with 13000.
\<close>

theorem pattern_name_misranks:
  "summed_duration wild_db ''A_'' 1 = Some 5000 \<and>
   summed_duration wild_db ''A_'' 2 = Some 3000 \<and>
   leaderboard_query wild_db ''A_'' wild_rows \<and>
   map (\<lambda>e. (le_rank e, le_userId e)) (leaderboard_json 1 wild_rows) = [(1, 2), (2, 1)]"
proof -
  have a: "summed_duration wild_db ''A_'' 1 = Some 5000"
    by (simp add: wild_eval)
  have b: "summed_duration wild_db ''A_'' 2 = Some 3000"
    by (simp add: wild_eval)
  have c: "leaderboard_query wild_db ''A_'' wild_rows"
    by (simp add: wild_eval)
  have d: "map (\<lambda>e. (le_rank e, le_userId e)) (leaderboard_json 1 wild_rows) = [(1, 2), (2, 1)]"
    by (simp add: wild_eval)
  from a b c d show ?thesis by blast
qed

text \<open>That answer is the only one the query has there.\<close>

lemma wild_rows_only:
  assumes "leaderboard_query wild_db ''A_'' rows"
  shows "rows = wild_rows"
proof -
  let ?g1 = "\<lparr>lb_user_id = 1, lb_username = ''Nova'', lb_avatar = ''goat'',
               lb_total_ms = Some 5000, lb_song_count = 1\<rparr>"
  let ?g2 = "\<lparr>lb_user_id = 2, lb_username = ''Vega'', lb_avatar = ''goat'',
               lb_total_ms = Some 13000, lb_song_count = 2\<rparr>"
  have gs: "leaderboard_groups wild_db ''A_'' = [?g1, ?g2]"
    by (simp add: wild_eval)
  from assms have o: "order_by_limit desc_total 10 [?g1, ?g2] rows"
    by (simp add: leaderboard_query_def gs split: if_splits)
  then have len: "length rows = 2" and dist: "distinct rows"
    and sub: "set rows \<subseteq> {?g1, ?g2}" and srt: "sorted_wrt desc_total rows"
    by (auto simp: order_by_limit_def list_all_iff)
  from len obtain x y where r: "rows = [x, y]"
    by (cases rows; cases "tl rows") auto
  with sub dist have "x = ?g1 \<and> y = ?g2 \<or> x = ?g2 \<and> y = ?g1"
    by auto
  moreover have "\<not> desc_total ?g1 ?g2"
    by (simp add: desc_total_def)
  ultimately have "x = ?g2 \<and> y = ?g1"
    using srt r by auto
  with r show ?thesis by (simp add: wild_rows_def)
qed

text \<open>
  Claim C4, amended. Let the name of the artist be plain: without the characters
  \<^verbatim>\<open>%\<close> and \<^verbatim>\<open>_\<close> and the backslash, which have a meaning in a pattern. Let the keys
  of the users be distinct, as the primary key has it, and take any answer the engine may
  give to the leaderboard query for the artist. When two users have summed durations
  \<open>d1 > d2\<close> for that artist, compared without regard to letter case, and the user with
  \<open>d2\<close> is on the leaderboard, then the user with \<open>d1\<close> is on it too, with a strictly
  smaller rank. (The leaderboard has ten entries at most; a user below them is not ranked
  at all.)
\<close>

theorem leaderboard_ranks_by_total:
  assumes name: "plain artistName"
    and pk: "distinct (map u_id (users db))"
    and q: "leaderboard_query db artistName rows"
    and u1: "user_exists (users db) id1"
    and d1: "summed_duration db artistName id1 = Some d1"
    and d2: "summed_duration db artistName id2 = Some d2"
    and gt: "d2 < d1"
    and e2: "e2 \<in> set (leaderboard_json currentUserId rows)" "le_userId e2 = id2"
  shows "\<exists>e1 \<in> set (leaderboard_json currentUserId rows). le_userId e1 = id1 \<and> le_rank e1 < le_rank e2"
proof -
  let ?gs = "leaderboard_groups db artistName"
  let ?js = "leaderboard_json currentUserId rows"
  note m1 = d1[folded matched_plain[OF name]] and m2 = d2[folded matched_plain[OF name]]
  from q have sub: "set rows \<subseteq> set ?gs" and srt: "sorted_wrt desc_total rows"
    and dom: "\<forall>x \<in> set ?gs. x \<notin> set rows \<longrightarrow> (\<forall>r \<in> set rows. desc_total r x)"
    by (auto simp: leaderboard_query_def order_by_limit_def list_all_iff split: if_splits)
  from e2(1) obtain i where i: "i < length rows" and ei: "e2 = ?js ! i"
    by (auto simp: in_set_conv_nth length_leaderboard_json)
  from leaderboard_json_nth[OF i, of currentUserId] ei e2(2)
  have r2: "le_rank e2 = i + 1" and id2: "lb_user_id (rows ! i) = id2" by simp_all
  from i sub have "rows ! i \<in> set ?gs" by (auto simp: subset_iff)
  from group_is_user[OF pk this] id2 m2 have t2: "lb_total_ms (rows ! i) = Some d2" by simp
  from u1 obtain u where u: "u \<in> set (users db)" "u_id u = id1"
    by (auto simp: user_exists_def list_ex_iff)
  let ?g1 = "leaderboard_group (artist_plays db artistName) u"
  from group_of_user[OF pk u(1), of artistName d1] m1 u(2)
  have g1: "?g1 \<in> set ?gs" and t1: "lb_total_ms ?g1 = Some d1" and i1: "lb_user_id ?g1 = id1"
    by simp_all
  have nd: "\<not> desc_total (rows ! i) ?g1"
    using t1 t2 gt by (simp add: desc_total_def)
  have "?g1 \<in> set rows"
  proof (rule ccontr)
    assume "?g1 \<notin> set rows"
    with dom g1 i have "desc_total (rows ! i) ?g1" by auto
    with nd show False by simp
  qed
  then obtain j where j: "j < length rows" and gj: "rows ! j = ?g1"
    by (auto simp: in_set_conv_nth)
  have "j < i"
  proof (rule ccontr)
    assume "\<not> j < i"
    moreover have "j \<noteq> i" using gj t1 t2 gt by auto
    ultimately have "i < j" by simp
    with srt j have "desc_total (rows ! i) (rows ! j)"
      by (simp add: sorted_wrt_iff_nth_less)
    with nd gj show False by simp
  qed
  from leaderboard_json_nth[OF j, of currentUserId] gj i1
  have "le_rank (?js ! j) = j + 1" "le_userId (?js ! j) = id1" by simp_all
  moreover have "?js ! j \<in> set ?js" using j by (simp add: length_leaderboard_json)
  ultimately show ?thesis using r2 \<open>j < i\<close> by force
qed

theorem leaderboard_ranks_by_total_witness:
  "plain ''artist'' \<and>
   leaderboard_query lb_db ''artist'' lb_rows \<and>
   summed_duration lb_db ''artist'' 2 = Some 5000 \<and>
   summed_duration lb_db ''artist'' 1 = Some 3000 \<and>
   (\<exists>e1 \<in> set (leaderboard_json 1 lb_rows). le_userId e1 = 2 \<and> le_rank e1 < 2)"
proof -
  have n: "plain ''artist''"
    by (simp add: plain_def)
  have q: "leaderboard_query lb_db ''artist'' lb_rows"
    by (simp add: lb_eval)
  have pk: "distinct (map u_id (users lb_db))"
    by (simp add: lb_db_def initDb_def)
  have u: "user_exists (users lb_db) 2"
    by (simp add: lb_db_def initDb_def user_exists_def)
  have d1: "summed_duration lb_db ''artist'' 2 = Some 5000"
    by (simp add: lb_eval)
  have d2: "summed_duration lb_db ''artist'' 1 = Some 3000"
    by (simp add: lb_eval)
  have e: "\<lparr>le_rank = 2, le_userId = 1, le_username = ''Nova'', le_avatar = ''goat'',
             le_minutes = Some 0, le_songCount = 2, le_isCurrentUser = True\<rparr>
           \<in> set (leaderboard_json 1 lb_rows)"
    by (simp add: lb_eval)
  from leaderboard_ranks_by_total[OF n pk q u d1 d2 _ e] n q d1 d2
  show ?thesis by simp
qed

text \<open>
  A query that does not throw has an answer, so the theorem above never holds for want of
  one.
\<close>

lemma desc_total_total: "\<not> desc_total x y \<Longrightarrow> desc_total y x"
  by (auto simp: desc_total_def split: option.splits)

lemma desc_total_trans: "desc_total x y \<Longrightarrow> desc_total y z \<Longrightarrow> desc_total x z"
  by (auto simp: desc_total_def split: option.splits)

lemma set_insert_desc: "set (insert_desc x ys) = insert x (set ys)"
  by (induction ys) auto

lemma distinct_insert_desc: "distinct ys \<Longrightarrow> x \<notin> set ys \<Longrightarrow> distinct (insert_desc x ys)"
  by (induction ys) (auto simp: set_insert_desc)

lemma sorted_insert_desc: "sorted_wrt desc_total ys \<Longrightarrow> sorted_wrt desc_total (insert_desc x ys)"
proof (induction ys)
  case Nil
  then show ?case by simp
next
  case (Cons y ys)
  show ?case
  proof (cases "desc_total x y")
    case True
    with Cons.prems show ?thesis
      by (auto intro: desc_total_trans)
  next
    case False
    with Cons show ?thesis
      by (auto simp: set_insert_desc dest: desc_total_total)
  qed
qed

lemma set_sort_desc: "set (sort_desc xs) = set xs"
  unfolding sort_desc_def by (induction xs) (auto simp: set_insert_desc)

lemma distinct_sort_desc: "distinct xs \<Longrightarrow> distinct (sort_desc xs)"
  unfolding sort_desc_def
proof (induction xs)
  case Nil
  then show ?case by simp
next
  case (Cons x xs)
  then have "x \<notin> set (foldr insert_desc xs [])"
    using set_sort_desc[of xs] by (simp add: sort_desc_def)
  with Cons show ?case by (simp add: distinct_insert_desc)
qed

lemma sorted_sort_desc: "sorted_wrt desc_total (sort_desc xs)"
  unfolding sort_desc_def by (induction xs) (simp_all add: sorted_insert_desc)

lemma length_sort_desc: "length (sort_desc xs) = length xs"
proof -
  have "length (insert_desc x ys) = Suc (length ys)" for x ys
    by (induction ys) auto
  then show ?thesis
    unfolding sort_desc_def by (induction xs) auto
qed

lemma order_by_limit_take_sorted:
  assumes "distinct xs"
  shows "order_by_limit desc_total n xs (take n (sort_desc xs))"
proof -
  let ?s = "sort_desc xs"
  have split: "set xs = set (take n ?s) \<union> set (drop n ?s)"
    by (metis append_take_drop_id set_append set_sort_desc)
  have s: "sorted_wrt desc_total (take n ?s @ drop n ?s)"
    using sorted_sort_desc[of xs] by simp
  have a: "length (take n ?s) = min n (length xs)"
    by (simp add: length_sort_desc)
  have b: "distinct (take n ?s)"
    using distinct_sort_desc[OF assms] by (rule distinct_take)
  have c: "list_all (\<lambda>r. r \<in> set xs) (take n ?s)"
    using split by (simp add: list_all_iff)
  have d: "sorted_wrt desc_total (take n ?s)"
    using s by (simp only: sorted_wrt_append)
  have "list_all (\<lambda>r. desc_total r x) (take n ?s)" if "x \<in> set xs" "x \<notin> set (take n ?s)" for x
  proof -
    from that split have "x \<in> set (drop n ?s)" by blast
    with s show ?thesis by (simp only: sorted_wrt_append list_all_iff) blast
  qed
  then have e: "list_all (\<lambda>x. if x \<in> set (take n ?s) then True
      else list_all (\<lambda>r. desc_total r x) (take n ?s)) xs"
    by (simp add: list_all_iff)
  from a b c d e show ?thesis
    unfolding order_by_limit_def by blast
qed

lemma leaderboard_group_inj:
  assumes "leaderboard_group plays u = leaderboard_group plays v"
  shows "u = v"
proof -
  from assms have "lb_user_id (leaderboard_group plays u) = lb_user_id (leaderboard_group plays v)"
    and "lb_username (leaderboard_group plays u) = lb_username (leaderboard_group plays v)"
    and "lb_avatar (leaderboard_group plays u) = lb_avatar (leaderboard_group plays v)"
    by simp_all
  then have "u_id u = u_id v" "u_username u = u_username v" "u_avatar u = u_avatar v"
    by (simp_all add: leaderboard_group_def)
  then show ?thesis by (intro user_row.equality) simp_all
qed

lemma distinct_leaderboard_groups: "distinct (leaderboard_groups db artistName)"
proof -
  have "inj_on (leaderboard_group (artist_plays db artistName))
      (set (remdups (map snd (artist_plays db artistName))))"
    by (rule inj_onI) (rule leaderboard_group_inj)
  then show ?thesis
    unfolding leaderboard_groups_def by (simp only: distinct_map distinct_remdups simp_thms)
qed

theorem leaderboard_query_has_answer:
  assumes "\<not> leaderboard_throws db artistName"
  shows "leaderboard_query db artistName (take 10 (sort_desc (leaderboard_groups db artistName)))"
  using assms order_by_limit_take_sorted[OF distinct_leaderboard_groups, of 10 db artistName]
  by (simp add: leaderboard_query_def)


section \<open>The demo user and the user sequence\<close>

text \<open>
  \<^verbatim>\<open>ensureDemoUser\<close> inserts the demo user with the key 1 and leaves the sequence of the
  keys where it was. On a fresh database the first upload for a new name then draws the
  key 1 from the sequence, its insert throws on the primary key and the handler answers
  with status 500; the next upload draws the key 2 and succeeds.
\<close>

theorem first_upload_after_demo_user:
  "fst (upload (ensureDemoUser initDb) (Some ''Nova'') [] (Some [])) = Inl ServerError \<and>
   fst (upload (snd (upload (ensureDemoUser initDb) (Some ''Nova'') [] (Some []))) (Some ''Nova'') []
        (Some [])) =
     Inr \<lparr>ur_userId = 2, ur_recordsImported = 0\<rparr>"
  by (simp add: upload_def upload_username_def upload_resolve_user_def insert_user_def initDb_def
      ensureDemoUser_def DEMO_USER_ID_def DEMO_USERNAME_def varchar_ok_def text_ok_def
      user_exists_def)

end
